theory Spec2Isabelle
  imports Main "HOL-Library.Sublist" "HOL-Library.Word"
begin

unbundle bit_operations_syntax

section \<open>The C library functions that myshell.c calls\<close>

text \<open>
  myshell.c is a read-dispatch loop over nine built-in commands, each of them a thin
  wrapper around one POSIX call. A C string is modelled by the list of its characters
  before the terminating NUL; the global arrays \<open>buffer\<close> and \<open>filename\<close> hold
  256 bytes each.
\<close>

definition NUL :: char where
  "NUL = CHR 0x00"

definition MAX_PATH_LENGTH :: nat where
  "MAX_PATH_LENGTH = 256"

definition MAX_BUFFER_LENGTH :: nat where
  "MAX_BUFFER_LENGTH = 256"

definition MAX_FILENAME_LENGTH :: nat where
  "MAX_FILENAME_LENGTH = 256"

text \<open>\<open>isspace\<close> in the C locale: space, \<open>\t\<close>, \<open>\n\<close>, \<open>\v\<close>, \<open>\f\<close>, \<open>\r\<close>.\<close>

definition isspace :: "char \<Rightarrow> bool" where
  "isspace c = (c = CHR 0x20 \<or> c = CHR 0x09 \<or> c = CHR 0x0A \<or> c = CHR 0x0B
     \<or> c = CHR 0x0C \<or> c = CHR 0x0D)"

text \<open>The C string held by an array: its bytes up to the first NUL.\<close>

definition cstr :: "string \<Rightarrow> string" where
  "cstr a = takeWhile (\<lambda>c. c \<noteq> NUL) a"

definition strnlen :: "string \<Rightarrow> nat \<Rightarrow> nat" where
  "strnlen a n = min n (length (cstr a))"

text \<open>\<open>strncmp(a, b, n) == 0\<close> on two C strings.\<close>

definition strncmp0 :: "string \<Rightarrow> string \<Rightarrow> nat \<Rightarrow> bool" where
  "strncmp0 a b n = (take n a = take n b)"

text \<open>
  \<open>sscanf(buffer, "<kw> %s", filename) == 1\<close>. The literal characters of the format
  must match the input one by one (no white space is skipped before them); the blank of
  the format matches any amount of white space, also none; \<open>%s\<close> skips white space and
  then stores the longest run of non-space characters, failing at the end of the input.
  \<open>Some tok\<close> stands for the return value 1 with \<open>tok\<close> stored; \<open>None\<close> for the return
  values 0 and \<open>EOF\<close>, which store nothing.
\<close>

fun match_literal :: "string \<Rightarrow> string \<Rightarrow> string option" where
  "match_literal [] inp = Some inp"
| "match_literal (k # ks) [] = None"
| "match_literal (k # ks) (c # cs) = (if k = c then match_literal ks cs else None)"

definition scan_s :: "string \<Rightarrow> string option" where
  "scan_s inp =
     (let r = dropWhile isspace inp
      in if r = [] then None else Some (takeWhile (\<lambda>c. \<not> isspace c) r))"

definition sscanf :: "string \<Rightarrow> string \<Rightarrow> string option" where
  "sscanf buffer kw =
     (case match_literal kw buffer of
        None \<Rightarrow> None
      | Some rest \<Rightarrow> scan_s (dropWhile isspace rest))"

text \<open>
  \<open>fgets(buffer, n, stdin)\<close>: at most \<open>n - 1\<close> characters, stopping after a newline;
  \<open>None\<close> is the null pointer returned at end of input. The second component is what
  stays on the input stream.
\<close>

fun fgets_chars :: "nat \<Rightarrow> string \<Rightarrow> string \<times> string" where
  "fgets_chars 0 s = ([], s)"
| "fgets_chars (Suc k) [] = ([], [])"
| "fgets_chars (Suc k) (c # s) =
     (if c = CHR 0x0A then ([c], s)
      else (case fgets_chars k s of (l, r) \<Rightarrow> (c # l, r)))"

definition fgets :: "nat \<Rightarrow> string \<Rightarrow> (string \<times> string) option" where
  "fgets n s = (if s = [] then None else Some (fgets_chars (n - 1) s))"

text \<open>\<open>%-30s\<close>: left-justified in a field of 30 characters, never truncated.\<close>

definition pad30 :: "string \<Rightarrow> string" where
  "pad30 s = s @ replicate (30 - length s) (CHR 0x20)"

text \<open>\<open>%i\<close> of a value cast to \<open>int\<close> (32 bits, two's complement).\<close>

definition digit :: "nat \<Rightarrow> char" where
  "digit n = ''0123456789'' ! n"

function show_nat :: "nat \<Rightarrow> string" where
  "show_nat n = (if n < 10 then [digit n] else show_nat (n div 10) @ [digit (n mod 10)])"
  by pat_completeness auto
termination
  by (relation "measure id") auto

definition cast_int :: "int \<Rightarrow> int" where
  "cast_int x = sint (word_of_int x :: 32 word)"

definition show_int :: "int \<Rightarrow> string" where
  "show_int x =
     (let v = cast_int x
      in if v < 0 then CHR ''-'' # show_nat (nat (- v)) else show_nat (nat v))"

section \<open>strip\_trailing\_whitespace\<close>

text \<open>
  \<^verbatim>\<open>int i = strnlen(string, MAX_BUFFER_LENGTH) - 1;
  while (isspace(string[i])) string[i--] = 0;\<close>
  Every access to \<open>string[i]\<close> outside the array is a fault: the loop has no test of
  \<open>i\<close>, so the model has the branch the C code leaves to undefined behaviour.
\<close>

datatype fault = Out_of_bounds int

function strip_loop :: "string \<Rightarrow> int \<Rightarrow> fault + string" where
  "strip_loop string i =
     (if i < 0 \<or> int (length string) \<le> i then Inl (Out_of_bounds i)
      else if isspace (string ! nat i) then strip_loop (string[nat i := NUL]) (i - 1)
      else Inr string)"
  by pat_completeness auto
termination
  by (relation "measure (\<lambda>(s, i). nat (i + 1))") auto

definition strip_trailing_whitespace :: "string \<Rightarrow> fault + string" where
  "strip_trailing_whitespace string =
     strip_loop string (int (strnlen string MAX_BUFFER_LENGTH) - 1)"

section \<open>The file system behind the POSIX calls\<close>

text \<open>
  The program reaches the file system only through \<open>chdir\<close>, \<open>getcwd\<close>, \<open>opendir\<close>,
  \<open>readdir\<close>, \<open>stat\<close>, \<open>open\<close>, \<open>read\<close>, \<open>mkdir\<close>, \<open>rmdir\<close> and \<open>unlink\<close>. The
  file system is a table from absolute paths (lists of names) to inodes; the order of
  the table is the order in which \<open>readdir\<close> enumerates, which the program cannot
  choose. The calling process owns every file and is not the superuser, so the owner
  bits of \<open>st_mode\<close> decide: read permission for \<open>opendir\<close> and \<open>open\<close>, search
  permission for \<open>chdir\<close> and for walking through a directory, write permission for
  changing a directory. Symbolic links, hard links and mount points are left out.
\<close>

datatype errno = EACCES | EBUSY | EEXIST | EINVAL | EISDIR | ENOENT | ENOTDIR | ENOTEMPTY | ERANGE

fun strerror :: "errno \<Rightarrow> string" where
  "strerror EACCES = ''Permission denied''"
| "strerror EBUSY = ''Device or resource busy''"
| "strerror EEXIST = ''File exists''"
| "strerror EINVAL = ''Invalid argument''"
| "strerror EISDIR = ''Is a directory''"
| "strerror ENOENT = ''No such file or directory''"
| "strerror ENOTDIR = ''Not a directory''"
| "strerror ENOTEMPTY = ''Directory not empty''"
| "strerror ERANGE = ''Numerical result out of range''"

record inode =
  st_mode :: nat
  st_size :: int
  st_mtime :: string
  st_nlink :: int
  st_ino :: int
  bytes :: string

text \<open>
  \<open>st_mtime\<close> is kept as the text \<open>ctime\<close> renders it to (it ends in a newline);
  \<open>bytes\<close> is the content of a regular file.
\<close>

definition S_IFDIR :: nat where
  "S_IFDIR = 16384"

definition S_ISDIR :: "nat \<Rightarrow> bool" where
  "S_ISDIR m = (m div 4096 mod 16 = 4)"

definition may_read :: "nat \<Rightarrow> bool" where
  "may_read m = (m div 256 mod 2 = 1)"

definition may_write :: "nat \<Rightarrow> bool" where
  "may_write m = (m div 128 mod 2 = 1)"

definition may_search :: "nat \<Rightarrow> bool" where
  "may_search m = (m div 64 mod 2 = 1)"

type_synonym path = "string list"

record shell =
  fs :: "(path \<times> inode) list"
  cwd :: path
  dots :: bool
  fresh :: inode
  umask :: nat
  pw_dir :: string
  stdin :: string
  stdout :: string
  stderr :: string
  filename :: string
  stack_bytes :: string
  stack_isdir :: bool

text \<open>
  \<open>dots\<close>: whether \<open>readdir\<close> also returns the entries \<open>.\<close> and \<open>..\<close> (POSIX leaves
  it to the file system). \<open>fresh\<close>: the metadata the kernel gives a new directory.
  \<open>umask\<close>: the file mode creation mask of the process.
  \<open>pw_dir\<close>: the home directory of the password entry. \<open>filename\<close>: the global array
  of that name. \<open>stack_bytes\<close> and \<open>stack_isdir\<close>: what the automatic variables
  \<open>buffer\<close> of \<open>do_cat\<close> and \<open>info\<close> of \<open>do_ls\<close> hold before anything is stored in
  them. The global \<open>result\<close> is only ever written, so it is left out. Output is
  recorded in the order of the calls; the buffering of stdio is not modelled.
\<close>

fun split_path :: "string \<Rightarrow> string list" where
  "split_path [] = [[]]"
| "split_path (c # s) =
     (if c = CHR ''/'' then [] # split_path s
      else (case split_path s of [] \<Rightarrow> [[c]] | x # xs \<Rightarrow> (c # x) # xs))"

definition render :: "path \<Rightarrow> string" where
  "render p = (if p = [] then ''/'' else concat (map (\<lambda>c. CHR ''/'' # c) p))"

fun walk :: "(path \<times> inode) list \<Rightarrow> path \<Rightarrow> string list \<Rightarrow> errno + path" where
  "walk t p [] = Inr p"
| "walk t p (c # cs) =
     (case map_of t p of
        None \<Rightarrow> Inl ENOENT
      | Some d \<Rightarrow>
          if \<not> S_ISDIR (st_mode d) then Inl ENOTDIR
          else if \<not> may_search (st_mode d) then Inl EACCES
          else if c = [] \<or> c = ''.'' then walk t p cs
          else if c = ''..'' then walk t (butlast p) cs
          else walk t (p @ [c]) cs)"

definition start_dir :: "shell \<Rightarrow> string \<Rightarrow> path" where
  "start_dir w name = (if hd name = CHR ''/'' then [] else cwd w)"

definition lookup :: "shell \<Rightarrow> string \<Rightarrow> errno + path \<times> inode" where
  "lookup w name =
     (if name = [] then Inl ENOENT
      else case walk (fs w) (start_dir w name) (split_path name) of
             Inl e \<Rightarrow> Inl e
           | Inr p \<Rightarrow> (case map_of (fs w) p of None \<Rightarrow> Inl ENOENT | Some i \<Rightarrow> Inr (p, i)))"

definition sys_chdir :: "shell \<Rightarrow> string \<Rightarrow> errno + shell" where
  "sys_chdir w name =
     (case lookup w name of
        Inl e \<Rightarrow> Inl e
      | Inr (p, i) \<Rightarrow>
          if \<not> S_ISDIR (st_mode i) then Inl ENOTDIR
          else if \<not> may_search (st_mode i) then Inl EACCES
          else Inr (w\<lparr>cwd := p\<rparr>))"

definition sys_getcwd :: "shell \<Rightarrow> nat \<Rightarrow> errno + string" where
  "sys_getcwd w len =
     (case map_of (fs w) (cwd w) of
        None \<Rightarrow> Inl ENOENT
      | Some i \<Rightarrow> if len < length (render (cwd w)) + 1 then Inl ERANGE else Inr (render (cwd w)))"

definition children :: "(path \<times> inode) list \<Rightarrow> path \<Rightarrow> string list" where
  "children t p = map (\<lambda>e. last (fst e)) (filter (\<lambda>e. fst e \<noteq> [] \<and> butlast (fst e) = p) t)"

definition readdir_all :: "shell \<Rightarrow> path \<Rightarrow> string list" where
  "readdir_all w p = (if dots w then [''.'', ''..''] else []) @ children (fs w) p"

definition sys_opendir :: "shell \<Rightarrow> string \<Rightarrow> errno + string list" where
  "sys_opendir w name =
     (case lookup w name of
        Inl e \<Rightarrow> Inl e
      | Inr (p, i) \<Rightarrow>
          if \<not> S_ISDIR (st_mode i) then Inl ENOTDIR
          else if \<not> may_read (st_mode i) then Inl EACCES
          else Inr (readdir_all w p))"

definition sys_stat :: "shell \<Rightarrow> string \<Rightarrow> errno + inode" where
  "sys_stat w name = (case lookup w name of Inl e \<Rightarrow> Inl e | Inr (p, i) \<Rightarrow> Inr i)"

text \<open>
  \<open>open(name, O_RDONLY)\<close> gives a descriptor: the inode and the file offset. A
  directory can be opened for reading; \<open>read\<close> on it fails with \<open>EISDIR\<close> and returns
  -1. \<open>read\<close> on a regular file returns the bytes from the offset on, at most \<open>n\<close>.
\<close>

definition sys_open :: "shell \<Rightarrow> string \<Rightarrow> errno + inode \<times> nat" where
  "sys_open w name =
     (case lookup w name of
        Inl e \<Rightarrow> Inl e
      | Inr (p, i) \<Rightarrow> if \<not> may_read (st_mode i) then Inl EACCES else Inr (i, 0))"

definition sys_read :: "inode \<times> nat \<Rightarrow> nat \<Rightarrow> int \<times> string \<times> (inode \<times> nat)" where
  "sys_read fd n =
     (if S_ISDIR (st_mode (fst fd)) then (- 1, [], fd)
      else (let got = take n (drop (snd fd) (bytes (fst fd)))
            in (int (length got), got, (fst fd, snd fd + length got))))"

text \<open>
  The last name of a path and the directory it is to be found in, for the calls that
  add or remove an entry. Trailing slashes are dropped. \<open>mkdir\<close> stores the mode
  without the bits of the umask; removing an entry needs write permission on the
  directory that holds it, which \<open>rmdir\<close> tests before it looks whether the directory
  to remove is empty (\<open>occupied\<close>).
\<close>

definition leaf_of :: "string \<Rightarrow> string list \<times> string" where
  "leaf_of name =
     (let cs = rev (dropWhile (\<lambda>c. c = []) (rev (split_path name)))
      in if cs = [] then ([], []) else (butlast cs, last cs))"

definition parent_dir :: "shell \<Rightarrow> string \<Rightarrow> errno + path \<times> string" where
  "parent_dir w name =
     (if name = [] then Inl ENOENT
      else case leaf_of name of (ds, leaf) \<Rightarrow>
        (case walk (fs w) (start_dir w name) ds of
           Inl e \<Rightarrow> Inl e
         | Inr p \<Rightarrow>
             (case map_of (fs w) p of
                None \<Rightarrow> Inl ENOENT
              | Some d \<Rightarrow>
                  if \<not> S_ISDIR (st_mode d) then Inl ENOTDIR
                  else if \<not> may_search (st_mode d) then Inl EACCES
                  else Inr (p, leaf))))"

definition sys_mkdir :: "shell \<Rightarrow> string \<Rightarrow> nat \<Rightarrow> errno + shell" where
  "sys_mkdir w name mode =
     (case parent_dir w name of
        Inl e \<Rightarrow> Inl e
      | Inr (p, leaf) \<Rightarrow>
          if leaf = [] \<or> leaf = ''.'' \<or> leaf = ''..'' then Inl EEXIST
          else if map_of (fs w) (p @ [leaf]) \<noteq> None then Inl EEXIST
          else if \<not> may_write (st_mode (the (map_of (fs w) p))) then Inl EACCES
          else Inr (w\<lparr>fs := fs w @ [(p @ [leaf],
                 (fresh w)\<lparr>st_mode := S_IFDIR + (mode - (mode AND umask w))\<rparr>)]\<rparr>))"

definition remove_entry :: "shell \<Rightarrow> path \<Rightarrow> bool \<Rightarrow> errno + shell" where
  "remove_entry w p occupied =
     (case map_of (fs w) (butlast p) of
        None \<Rightarrow> Inl ENOENT
      | Some d \<Rightarrow>
          if \<not> may_write (st_mode d) then Inl EACCES
          else if occupied then Inl ENOTEMPTY
          else Inr (w\<lparr>fs := filter (\<lambda>e. fst e \<noteq> p) (fs w)\<rparr>))"

definition sys_rmdir :: "shell \<Rightarrow> string \<Rightarrow> errno + shell" where
  "sys_rmdir w name =
     (case lookup w name of
        Inl e \<Rightarrow> Inl e
      | Inr (p, i) \<Rightarrow>
          if \<not> S_ISDIR (st_mode i) then Inl ENOTDIR
          else if snd (leaf_of name) = ''.'' then Inl EINVAL
          else if p = [] then Inl EBUSY
          else remove_entry w p (children (fs w) p \<noteq> []))"

definition sys_unlink :: "shell \<Rightarrow> string \<Rightarrow> errno + shell" where
  "sys_unlink w name =
     (case lookup w name of
        Inl e \<Rightarrow> Inl e
      | Inr (p, i) \<Rightarrow> if S_ISDIR (st_mode i) then Inl EISDIR else remove_entry w p False)"

section \<open>The built-in commands\<close>

definition endl :: string where
  "endl = [CHR 0x0A]"

definition put_out :: "shell \<Rightarrow> string \<Rightarrow> shell" where
  "put_out w s = w\<lparr>stdout := stdout w @ s\<rparr>"

definition put_err :: "shell \<Rightarrow> string \<Rightarrow> shell" where
  "put_err w s = w\<lparr>stderr := stderr w @ s\<rparr>"

text \<open>
  \<^verbatim>\<open>if (getcwd(current_dir, sizeof (current_dir)) != NULL)
      fprintf(stdout, "%s>", current_dir);\<close>
\<close>

definition display_prompt :: "shell \<Rightarrow> shell" where
  "display_prompt w =
     (case sys_getcwd w MAX_PATH_LENGTH of
        Inl e \<Rightarrow> w
      | Inr current_dir \<Rightarrow> put_out w (current_dir @ ''>''))"

text \<open>
  \<open>do_cd\<close> is always called on the global \<open>filename\<close>, so its \<open>strncpy\<close> writes
  that array. A home directory of 256 bytes or more fills the array without a
  terminator, and \<open>chdir\<close> then reads past its end.
\<close>

definition do_cd :: "string \<Rightarrow> shell \<Rightarrow> fault + shell" where
  "do_cd dirname w =
     (if strnlen dirname MAX_PATH_LENGTH = 0 \<and> MAX_PATH_LENGTH \<le> length (cstr (pw_dir w))
      then Inl (Out_of_bounds (int MAX_FILENAME_LENGTH))
      else
        (let d = (if strnlen dirname MAX_PATH_LENGTH = 0 then cstr (pw_dir w) else dirname);
             w1 = w\<lparr>filename := d\<rparr>
         in case sys_chdir w1 d of
              Inl e \<Rightarrow> Inr (put_err w1 (''cd: '' @ strerror e @ endl))
            | Inr w2 \<Rightarrow> Inr w2))"

text \<open>
  The loop of \<open>do_ls\<close> over the entries \<open>readdir\<close> returns. \<open>info\<close> is what
  \<open>S_ISDIR(info.st_mode)\<close> reads: when \<open>stat\<close> fails, the structure keeps what the
  last successful call stored (at first, what the stack held).
\<close>

definition print_entry :: "string \<Rightarrow> bool \<Rightarrow> shell \<Rightarrow> shell" where
  "print_entry d_name isdir w =
     (if isdir then put_out w (pad30 d_name @ [CHR 0x09] @ ''<dir>'' @ endl)
      else put_out w (pad30 d_name @ endl))"

fun ls_entries :: "string list \<Rightarrow> bool \<Rightarrow> shell \<Rightarrow> shell" where
  "ls_entries [] info w = w"
| "ls_entries (d_name # rest) info w =
     (case sys_stat w d_name of
        Inl e \<Rightarrow>
          ls_entries rest info
            (print_entry d_name info
               (put_err w (''stat: '' @ d_name @ '': '' @ strerror e @ endl)))
      | Inr i \<Rightarrow>
          ls_entries rest (S_ISDIR (st_mode i)) (print_entry d_name (S_ISDIR (st_mode i)) w))"

text \<open>The result of \<open>chdir(dirname)\<close> is not looked at.\<close>

definition do_ls :: "string \<Rightarrow> shell \<Rightarrow> shell" where
  "do_ls dirname w =
     (case sys_opendir w dirname of
        Inl e \<Rightarrow>
          put_err w (''Could not open directory '' @ dirname @ '': '' @ strerror e @ endl)
      | Inr names \<Rightarrow>
          ls_entries names (stack_isdir w)
            (case sys_chdir w dirname of Inl e \<Rightarrow> w | Inr w' \<Rightarrow> w'))"

text \<open>
  \<^verbatim>\<open>do {
      readCount = read(inFile, buffer, sizeof (buffer));
      write(1, buffer, sizeof (buffer));
  } while (readCount > 0);\<close>
  \<open>buffer\<close> is the automatic array of 2048 bytes; \<open>out\<close> collects what \<open>write\<close>
  sends to descriptor 1.
\<close>

definition auto_buffer :: "shell \<Rightarrow> string" where
  "auto_buffer w = take 2048 (stack_bytes w @ replicate 2048 NUL)"

function cat_loop :: "inode \<times> nat \<Rightarrow> string \<Rightarrow> string \<Rightarrow> string" where
  "cat_loop inFile buffer out =
     (case sys_read inFile 2048 of
        (readCount, got, inFile') \<Rightarrow>
          (let buffer' = got @ drop (length got) buffer;
               out' = out @ take 2048 buffer'
           in if readCount > 0 then cat_loop inFile' buffer' out' else out'))"
  by pat_completeness auto
termination
  by (relation "measure (\<lambda>(fd, b, out). length (bytes (fst fd)) - snd fd)")
     (auto simp: sys_read_def Let_def split: if_splits)

declare cat_loop.simps [simp del]

definition do_cat :: "string \<Rightarrow> shell \<Rightarrow> shell" where
  "do_cat name w =
     (case sys_open w name of
        Inl e \<Rightarrow> put_out w (''Unable to open '' @ name @ '': '' @ strerror e @ endl)
      | Inr inFile \<Rightarrow> put_out w (cat_loop inFile (auto_buffer w) []))"

definition do_mkdir :: "string \<Rightarrow> shell \<Rightarrow> shell" where
  "do_mkdir dirname w =
     (case sys_mkdir w dirname 493 of
        Inl e \<Rightarrow> put_err w (''Error making directory '' @ dirname @ '': '' @ strerror e @ endl)
      | Inr w' \<Rightarrow> w')"

definition do_rmdir :: "string \<Rightarrow> shell \<Rightarrow> shell" where
  "do_rmdir dirname w =
     (case sys_rmdir w dirname of
        Inl e \<Rightarrow> put_err w (''Error removing directory '' @ dirname @ '': '' @ strerror e @ endl)
      | Inr w' \<Rightarrow> w')"

definition do_pwd :: "shell \<Rightarrow> shell" where
  "do_pwd w =
     (case sys_getcwd w MAX_PATH_LENGTH of
        Inl e \<Rightarrow> w
      | Inr current_dir \<Rightarrow> put_out w (current_dir @ ''>''))"

definition do_rm :: "string \<Rightarrow> shell \<Rightarrow> shell" where
  "do_rm name w =
     (case sys_unlink w name of
        Inl e \<Rightarrow> put_err w (''Error unlinking file '' @ name @ '': '' @ strerror e @ endl)
      | Inr w' \<Rightarrow> w')"

definition do_stat :: "string \<Rightarrow> shell \<Rightarrow> shell" where
  "do_stat name w =
     (case sys_stat w name of
        Inl e \<Rightarrow> put_err w (''Error getting stats for '' @ name @ '': '' @ strerror e @ endl)
      | Inr info \<Rightarrow>
          put_out w
            (''File Name: '' @ name @ endl
             @ ''Total Size: '' @ show_int (st_size info) @ endl
             @ ''Last Modified: '' @ st_mtime info
             @ ''Protection: '' @ show_int (int (st_mode info)) @ endl
             @ ''Number of hardlinks: '' @ show_int (st_nlink info) @ endl
             @ ''Inode: '' @ show_int (st_ino info) @ endl))"

section \<open>Dispatch: main and execute\_command\<close>

text \<open>
  The conditions of the two \<open>if\<close> chains, in the order of the source. A successful
  \<open>sscanf\<close> stores its token in the global \<open>filename\<close>; a failed one and \<open>strncmp\<close>
  store nothing. \<open>select\<close> is the chain of \<open>execute_command\<close>, \<open>dispatch\<close> puts the
  two tests of \<open>main\<close> (\<open>cd\<close>, \<open>exit\<close>) before it.
\<close>

datatype builtin = Cd | Exit | Cat | Stat | Mkdir | Rmdir | Rm | Ls | Pwd | Invalid

definition select :: "string \<Rightarrow> shell \<Rightarrow> builtin \<times> shell" where
  "select buffer w =
     (case sscanf buffer ''cat'' of Some tok \<Rightarrow> (Cat, w\<lparr>filename := tok\<rparr>) | None \<Rightarrow>
      (case sscanf buffer ''stat'' of Some tok \<Rightarrow> (Stat, w\<lparr>filename := tok\<rparr>) | None \<Rightarrow>
      (case sscanf buffer ''mkdir'' of Some tok \<Rightarrow> (Mkdir, w\<lparr>filename := tok\<rparr>) | None \<Rightarrow>
      (case sscanf buffer ''rmdir'' of Some tok \<Rightarrow> (Rmdir, w\<lparr>filename := tok\<rparr>) | None \<Rightarrow>
      (case sscanf buffer ''rm'' of Some tok \<Rightarrow> (Rm, w\<lparr>filename := tok\<rparr>) | None \<Rightarrow>
      (case sscanf buffer ''ls'' of Some tok \<Rightarrow> (Ls, w\<lparr>filename := tok\<rparr>) | None \<Rightarrow>
       if strncmp0 buffer ''ls'' MAX_BUFFER_LENGTH then (Ls, w)
       else if strncmp0 buffer ''pwd'' MAX_BUFFER_LENGTH then (Pwd, w)
       else (Invalid, w)))))))"

definition dispatch :: "string \<Rightarrow> shell \<Rightarrow> builtin \<times> shell" where
  "dispatch buffer w =
     (case sscanf buffer ''cd'' of Some tok \<Rightarrow> (Cd, w\<lparr>filename := tok\<rparr>) | None \<Rightarrow>
       if strncmp0 buffer ''cd'' MAX_BUFFER_LENGTH then (Cd, w)
       else if strncmp0 buffer ''exit'' MAX_BUFFER_LENGTH then (Exit, w)
       else select buffer w)"

definition invalid_command :: "string \<Rightarrow> shell \<Rightarrow> shell" where
  "invalid_command buffer w =
     (if strnlen buffer MAX_BUFFER_LENGTH \<noteq> 0
      then put_err w (''myshell: '' @ buffer @ '': No such file or directory'' @ endl)
      else w)"

definition list_command :: "shell \<Rightarrow> shell" where
  "list_command w =
     (let w1 = (if strnlen (filename w) MAX_BUFFER_LENGTH = 0 then w\<lparr>filename := ''.''\<rparr> else w)
      in do_ls (filename w1) w1)"

definition execute_command :: "string \<Rightarrow> shell \<Rightarrow> shell" where
  "execute_command buffer w =
     (case select buffer w of
        (b, w1) \<Rightarrow>
          (case b of
             Cat \<Rightarrow> do_cat (filename w1) w1
           | Stat \<Rightarrow> do_stat (filename w1) w1
           | Mkdir \<Rightarrow> do_mkdir (filename w1) w1
           | Rmdir \<Rightarrow> do_rmdir (filename w1) w1
           | Rm \<Rightarrow> do_rm (filename w1) w1
           | Ls \<Rightarrow> list_command w1
           | Pwd \<Rightarrow> do_pwd w1
           | _ \<Rightarrow> invalid_command buffer w1))"

text \<open>
  One turn of the \<open>while (1)\<close> of \<open>main\<close>, in three steps: \<open>main_body\<close> prints
  the prompt and calls \<open>fgets\<close>; \<open>on_line\<close> is the body of the \<open>if\<close> for the line
  read (\<open>strip_trailing_whitespace\<close>, then the \<open>memset\<close> of \<open>filename\<close>);
  \<open>on_buffer\<close> is the choice between \<open>do_cd\<close>, \<open>exit(0)\<close> and
  \<open>execute_command\<close>. The outcome of a turn is \<open>Running\<close>: the loop goes on
  with that state; \<open>Exited\<close>: \<open>exit\<close> was called with that code; or \<open>Crashed\<close>: an
  access outside an array, after which C says nothing about the program.
\<close>

datatype outcome = Running shell | Exited int shell | Crashed fault

definition on_buffer :: "string \<Rightarrow> shell \<Rightarrow> outcome" where
  "on_buffer buffer w =
     (case dispatch buffer w of
        (b, w1) \<Rightarrow>
          (case b of
             Cd \<Rightarrow> (case do_cd (filename w1) w1 of Inl f \<Rightarrow> Crashed f | Inr w2 \<Rightarrow> Running w2)
           | Exit \<Rightarrow> Exited 0 w1
           | _ \<Rightarrow> Running (execute_command buffer w1)))"

definition on_line :: "string \<Rightarrow> shell \<Rightarrow> outcome" where
  "on_line line w =
     (case strip_trailing_whitespace line of
        Inl f \<Rightarrow> Crashed f
      | Inr a \<Rightarrow> on_buffer (cstr a) (w\<lparr>filename := []\<rparr>))"

definition main_body :: "shell \<Rightarrow> outcome" where
  "main_body w =
     (let w1 = display_prompt w
      in case fgets MAX_BUFFER_LENGTH (stdin w1) of
           None \<Rightarrow> Running w1
         | Some (line, rest) \<Rightarrow> on_line line (w1\<lparr>stdin := rest\<rparr>))"

text \<open>
  The loop itself, with fuel: \<open>main n w\<close> is \<open>None\<close> when the process is still
  running after \<open>n\<close> turns, and otherwise how it ended.
\<close>

fun main :: "nat \<Rightarrow> shell \<Rightarrow> outcome option" where
  "main 0 w = None"
| "main (Suc n) w =
     (case main_body w of
        Running w' \<Rightarrow> main n w'
      | Exited code w' \<Rightarrow> Some (Exited code w')
      | Crashed f \<Rightarrow> Some (Crashed f))"

section \<open>Notions used to state the properties\<close>

text \<open>
  The nine keywords; those of them that the program matches with \<open>sscanf\<close>; the first
  white-space-delimited token of a line; a line without its trailing white space.
\<close>

definition command_keywords :: "string list" where
  "command_keywords = [''cd'', ''exit'', ''cat'', ''stat'', ''mkdir'', ''rmdir'', ''rm'', ''ls'', ''pwd'']"

definition scanned_keywords :: "string list" where
  "scanned_keywords = [''cd'', ''cat'', ''stat'', ''mkdir'', ''rmdir'', ''rm'', ''ls'']"

text \<open>The keyword of a built-in (none for the branch of unknown commands).\<close>

fun keyword_of :: "builtin \<Rightarrow> string" where
  "keyword_of Cd = ''cd''"
| "keyword_of Exit = ''exit''"
| "keyword_of Cat = ''cat''"
| "keyword_of Stat = ''stat''"
| "keyword_of Mkdir = ''mkdir''"
| "keyword_of Rmdir = ''rmdir''"
| "keyword_of Rm = ''rm''"
| "keyword_of Ls = ''ls''"
| "keyword_of Pwd = ''pwd''"
| "keyword_of Invalid = []"

definition first_token :: "string \<Rightarrow> string" where
  "first_token line = takeWhile (\<lambda>c. \<not> isspace c) (dropWhile isspace line)"

definition stripped :: "string \<Rightarrow> string" where
  "stripped line = rev (dropWhile isspace (rev line))"

definition diagnostic :: "string \<Rightarrow> string" where
  "diagnostic line = ''myshell: '' @ line @ '': No such file or directory'' @ endl"

text \<open>
  The normal form of a path name: the names left after \<open>.\<close>, \<open>..\<close> and empty
  components are resolved, from the root or from the working directory.
\<close>

fun lexical :: "path \<Rightarrow> string list \<Rightarrow> path" where
  "lexical p [] = p"
| "lexical p (c # cs) =
     (if c = [] \<or> c = ''.'' then lexical p cs
      else if c = ''..'' then lexical (butlast p) cs
      else lexical (p @ [c]) cs)"

definition normalized :: "shell \<Rightarrow> string \<Rightarrow> string" where
  "normalized w D = render (lexical (start_dir w D) (split_path D))"

text \<open>
  The two output lines of \<open>ls\<close> for an entry, and the entries \<open>.\<close> and \<open>..\<close>
  where \<open>readdir\<close> returns them.
\<close>

definition plain_line :: "string \<Rightarrow> string" where
  "plain_line d_name = pad30 d_name @ endl"

definition dir_line :: "string \<Rightarrow> string" where
  "dir_line d_name = pad30 d_name @ [CHR 0x09] @ ''<dir>'' @ endl"

definition dot_entries :: "shell \<Rightarrow> string list" where
  "dot_entries w = (if dots w then [''.'', ''..''] else [])"

text \<open>
  A small file system to run the program on: \<open>/tmp\<close> holds the regular file \<open>a\<close>
  (two bytes) and the directory \<open>b\<close>; \<open>/locked\<close> has mode 0444, so it can be read
  but not entered. \<open>demo_dots\<close> is the same file system with a \<open>readdir\<close> that
  returns \<open>.\<close> and \<open>..\<close> as the usual file systems do; in \<open>demo_locked\<close> the
  directory \<open>/locked\<close> holds a directory \<open>b\<close> besides the file \<open>a\<close>.
\<close>

definition dir_inode :: "nat \<Rightarrow> inode" where
  "dir_inode perm =
     \<lparr>st_mode = S_IFDIR + perm, st_size = 4096, st_mtime = ''Thu Jan  1 00:00:00 1970'' @ endl,
      st_nlink = 2, st_ino = 2, bytes = []\<rparr>"

definition file_inode :: "string \<Rightarrow> inode" where
  "file_inode s =
     \<lparr>st_mode = 33188, st_size = int (length s), st_mtime = ''Thu Jan  1 00:00:00 1970'' @ endl,
      st_nlink = 1, st_ino = 3, bytes = s\<rparr>"

definition demo :: shell where
  "demo =
     \<lparr>fs = [([], dir_inode 493), ([''tmp''], dir_inode 493), ([''tmp'', ''a''], file_inode ''hi''),
            ([''tmp'', ''b''], dir_inode 493), ([''locked''], dir_inode 292),
            ([''locked'', ''a''], file_inode ''x'')],
      cwd = [], dots = False, fresh = dir_inode 0, umask = 18, pw_dir = ''/tmp'', stdin = [], stdout = [],
      stderr = [], filename = [], stack_bytes = [], stack_isdir = False\<rparr>"

definition demo_dots :: shell where
  "demo_dots = demo\<lparr>dots := True\<rparr>"

definition demo_locked :: shell where
  "demo_locked = demo\<lparr>fs := fs demo @ [([''locked'', ''b''], dir_inode 493)]\<rparr>"

section \<open>Evaluating the model\<close>

text \<open>The definitions that \<open>simp\<close> unfolds to run the model on a concrete input.\<close>

lemmas libc_defs =
  NUL_def MAX_PATH_LENGTH_def MAX_BUFFER_LENGTH_def MAX_FILENAME_LENGTH_def isspace_def cstr_def
  strnlen_def strncmp0_def scan_s_def sscanf_def fgets_def endl_def pad30_def
  strip_trailing_whitespace_def

lemmas fs_defs =
  S_IFDIR_def S_ISDIR_def may_read_def may_write_def may_search_def render_def start_dir_def
  lookup_def sys_chdir_def sys_getcwd_def children_def readdir_all_def sys_opendir_def sys_stat_def
  sys_open_def sys_read_def

lemmas shell_defs =
  put_out_def put_err_def display_prompt_def do_cd_def print_entry_def do_ls_def do_cat_def
  do_pwd_def select_def dispatch_def invalid_command_def list_command_def execute_command_def
  on_buffer_def on_line_def main_body_def Let_def

lemmas demo_defs = demo_def demo_dots_def demo_locked_def dir_inode_def file_inode_def

section \<open>The backward scan of strip\_trailing\_whitespace\<close>

lemma strip_loop_all_space:
  "- 1 \<le> i \<Longrightarrow> i < int (length s) \<Longrightarrow> (\<And>j. int j \<le> i \<Longrightarrow> isspace (s ! j))
     \<Longrightarrow> strip_loop s i = Inl (Out_of_bounds (- 1))"
proof (induction s i rule: strip_loop.induct)
  case (1 s i)
  show ?case
  proof (cases "i < 0")
    case True
    with "1.prems" have "i = - 1" by simp
    then show ?thesis by simp
  next
    case False
    then have sp: "isspace (s ! nat i)" using "1.prems"(3) [of "nat i"] by simp
    have "strip_loop (s[nat i := NUL]) (i - 1) = Inl (Out_of_bounds (- 1))"
    proof (rule "1.IH")
      show "\<not> (i < 0 \<or> int (length s) \<le> i)" using False "1.prems" by simp
      show "isspace (s ! nat i)" by (rule sp)
      show "- 1 \<le> i - 1" using False by simp
      show "i - 1 < int (length (s[nat i := NUL]))" using "1.prems" by simp
      fix j assume "int j \<le> i - 1"
      then have "j \<noteq> nat i" "int j \<le> i" by auto
      then show "isspace (s[nat i := NUL] ! j)" using "1.prems"(3) [of j] by simp
    qed
    then show ?thesis using False sp "1.prems" by simp
  qed
qed

lemma cstr_no_NUL: "NUL \<notin> set s \<Longrightarrow> cstr s = s"
  by (auto simp: cstr_def)

lemma isspace_not_NUL: "isspace c \<Longrightarrow> c \<noteq> NUL"
  by (auto simp: isspace_def NUL_def)

lemma strip_blank:
  assumes "list_all isspace line" and "length line < MAX_BUFFER_LENGTH"
  shows "strip_trailing_whitespace line = Inl (Out_of_bounds (- 1))"
proof -
  have "NUL \<notin> set line" using assms(1) isspace_not_NUL by (auto simp: list_all_iff)
  then have len: "strnlen line MAX_BUFFER_LENGTH = length line"
    using assms(2) by (simp add: strnlen_def cstr_no_NUL)
  have "strip_loop line (int (length line) - 1) = Inl (Out_of_bounds (- 1))"
  proof (rule strip_loop_all_space)
    fix j assume "int j \<le> int (length line) - 1"
    then have "j < length line" by simp
    then show "isspace (line ! j)" using assms(1) by (simp add: list_all_length)
  qed simp_all
  then show ?thesis by (simp add: strip_trailing_whitespace_def len)
qed

lemma strip_loop_tail:
  "u \<noteq> [] \<Longrightarrow> \<not> isspace (last u) \<Longrightarrow> list_all isspace v \<Longrightarrow>
   strip_loop (u @ v @ z) (int (length u + length v) - 1) = Inr (u @ replicate (length v) NUL @ z)"
proof (induction v arbitrary: z rule: rev_induct)
  case Nil
  then have "(u @ z) ! (length u - 1) = last u"
    by (simp add: nth_append last_conv_nth)
  moreover have "nat (int (length u) - 1) = length u - 1" by simp
  ultimately show ?case using Nil by (subst strip_loop.simps) (simp del: strip_loop.simps)
next
  case (snoc c v)
  let ?i = "length u + length v"
  have sp: "isspace c" and rest: "list_all isspace v" using snoc.prems(3) by simp_all
  have nth: "(u @ (v @ [c]) @ z) ! ?i = c" by (simp add: nth_append)
  have upd: "(u @ (v @ [c]) @ z)[?i := NUL] = u @ v @ (NUL # z)"
    by (simp add: list_update_append)
  have idx: "nat (int (length u + length (v @ [c])) - 1) = ?i"
    "int (length u + length (v @ [c])) - 1 - 1 = int (length u + length v) - 1" by simp_all
  have "strip_loop (u @ (v @ [c]) @ z) (int (length u + length (v @ [c])) - 1)
      = strip_loop (u @ v @ (NUL # z)) (int (length u + length v) - 1)"
    by (subst strip_loop.simps) (simp only: idx nth upd, simp add: sp del: strip_loop.simps)
  also have "\<dots> = Inr (u @ replicate (length v) NUL @ NUL # z)"
    by (rule snoc.IH [OF snoc.prems(1,2) rest])
  also have "\<dots> = Inr (u @ replicate (length (v @ [c])) NUL @ z)"
    by (simp add: replicate_append_same)
  finally show ?case .
qed

lemma line_split: "line = stripped line @ rev (takeWhile isspace (rev line))"
proof -
  have "line = rev (takeWhile isspace (rev line) @ dropWhile isspace (rev line))"
    by (simp only: takeWhile_dropWhile_id rev_rev_ident)
  also have "\<dots> = rev (dropWhile isspace (rev line)) @ rev (takeWhile isspace (rev line))"
    by (rule rev_append)
  finally show ?thesis by (simp only: stripped_def)
qed

lemma last_stripped: "stripped line \<noteq> [] \<Longrightarrow> \<not> isspace (last (stripped line))"
  by (simp add: stripped_def last_rev hd_dropWhile)

lemma strip_trailing_whitespace_line:
  assumes "NUL \<notin> set line" and "length line < MAX_BUFFER_LENGTH" and "stripped line \<noteq> []"
  shows "\<exists>a. strip_trailing_whitespace line = Inr a \<and> cstr a = stripped line"
proof -
  define u where "u = stripped line"
  define v where "v = rev (takeWhile isspace (rev line))"
  have line: "line = u @ v @ []" using line_split [of line] by (simp add: u_def v_def)
  have v: "list_all isspace v"
    by (simp add: v_def list_all_iff) (meson set_takeWhileD)
  have len: "strnlen line MAX_BUFFER_LENGTH = length u + length v"
    using assms(1,2) line by (simp add: strnlen_def cstr_no_NUL)
  have "strip_loop (u @ v @ []) (int (length u + length v) - 1)
      = Inr (u @ replicate (length v) NUL @ [])"
    by (rule strip_loop_tail) (use assms(3) last_stripped [of line] v in \<open>simp_all add: u_def\<close>)
  then have res: "strip_trailing_whitespace line = Inr (u @ replicate (length v) NUL)"
    unfolding strip_trailing_whitespace_def len by (subst line) (simp del: strip_loop.simps)
  have "NUL \<notin> set u" using assms(1) line by (metis Un_iff set_append)
  then have "cstr (u @ replicate (length v) NUL) = u"
    by (cases "length v") (auto simp: cstr_def takeWhile_append1 takeWhile_tail)
  with res show ?thesis by (auto simp: u_def)
qed


text \<open>
  C10. The claim: on every line, also the empty line and lines of white space only, the
  backward scan stays within the buffer and never reads an index below 0. The code
  does otherwise: on every line that is white space throughout (the empty line read by
  \<open>fgets\<close> is a single newline) the scan clears the whole line and then reads
  \<open>string[-1]\<close>.
\<close>

theorem strip_blank_line_out_of_bounds:
  assumes "list_all isspace line" and "length line < MAX_BUFFER_LENGTH"
  shows "strip_trailing_whitespace line = Inl (Out_of_bounds (- 1))"
  using assms by (rule strip_blank)

text \<open>The empty line, as \<open>fgets\<close> delivers it.\<close>

theorem strip_blank_line_witness:
  "list_all isspace endl \<and> length endl < MAX_BUFFER_LENGTH
   \<and> strip_trailing_whitespace endl = Inl (Out_of_bounds (- 1))"
proof -
  have a: "list_all isspace endl" by (simp add: endl_def isspace_def)
  have b: "length endl < MAX_BUFFER_LENGTH" by (simp add: endl_def MAX_BUFFER_LENGTH_def)
  show ?thesis using a b strip_blank_line_out_of_bounds [OF a b] by simp
qed

section \<open>End of input\<close>

lemma stdin_display_prompt [simp]: "stdin (display_prompt w) = stdin w"
  by (simp add: display_prompt_def put_out_def split: sum.splits)

lemma main_body_eof: "stdin w = [] \<Longrightarrow> main_body w = Running (display_prompt w)"
  by (simp add: main_body_def fgets_def Let_def)

lemma main_eof: "stdin w = [] \<Longrightarrow> main n w = None"
  by (induction n arbitrary: w) (simp_all add: main_body_eof)

text \<open>
  C2. The claim: at end of input the loop ends and the process exits with code 0. The
  code does otherwise: when \<open>fgets\<close> returns the null pointer the body of the \<open>if\<close>
  is skipped and the \<open>while (1)\<close> goes round again, so with the input at its end the
  process is still running after any number of turns.
\<close>

theorem end_of_input_never_exits: "main n (w\<lparr>stdin := []\<rparr>) = None"
  by (rule main_eof) simp

section \<open>cat\<close>

text \<open>
  C7. The claim: every failure diagnostic goes to the error stream, in particular
  that of \<open>cat\<close> when \<open>open\<close> fails. The code does otherwise: \<open>do_cat\<close> reports with
  \<open>printf\<close>, so the message is appended to standard output and the error stream stays
  as it was.
\<close>

theorem cat_open_failure_on_stdout:
  assumes "sys_open w name = Inl e"
  shows "stderr (do_cat name w) = stderr w
    \<and> stdout (do_cat name w) = stdout w @ ''Unable to open '' @ name @ '': '' @ strerror e @ endl"
  using assms by (simp add: do_cat_def put_out_def)


theorem cat_open_failure_witness:
  "sys_open demo ''nosuch'' = Inl ENOENT
   \<and> stderr (do_cat ''nosuch'' demo) = stderr demo
   \<and> stdout (do_cat ''nosuch'' demo)
       = stdout demo @ ''Unable to open nosuch: No such file or directory'' @ endl"
proof -
  have a: "sys_open demo ''nosuch'' = Inl ENOENT" by (simp add: fs_defs demo_defs)
  show ?thesis using a cat_open_failure_on_stdout [OF a] by simp
qed

lemma chunk_count:
  "0 < n \<Longrightarrow> (n - min 2048 n + 2047) div 2048 + 1 = (n + 2047) div (2048::nat)"
proof (cases "n < 2048")
  case True
  assume "0 < n"
  with True show ?thesis by (simp add: min_def)
next
  case False
  then have "n + 2047 = (n - 2048 + 2047) + 2048" by simp
  then have "(n + 2047) div 2048 = (n - 2048 + 2047) div 2048 + 1"
    by (metis div_add_self2 zero_neq_numeral)
  with False show ?thesis by (simp add: min_def)
qed

lemma cat_loop_length:
  "\<not> S_ISDIR (st_mode (fst fd)) \<Longrightarrow> length buf = 2048 \<Longrightarrow>
   length (cat_loop fd buf out)
     = length out + 2048 * ((length (bytes (fst fd)) - snd fd + 2047) div 2048 + 1)"
proof (induction fd buf out rule: cat_loop.induct)
  case (1 inFile buffer out)
  define n where "n = length (bytes (fst inFile)) - snd inFile"
  define got where "got = take 2048 (drop (snd inFile) (bytes (fst inFile)))"
  define buffer' where "buffer' = got @ drop (length got) buffer"
  define out' where "out' = out @ take 2048 buffer'"
  define inFile' where "inFile' = (fst inFile, snd inFile + length got)"
  have rd: "sys_read inFile 2048 = (int (length got), got, inFile')"
    using "1.prems"(1) by (simp add: sys_read_def Let_def got_def inFile'_def)
  have lg: "length got = min 2048 n" by (simp add: got_def n_def min.commute)
  have lb: "length buffer' = 2048" using "1.prems"(2) lg by (simp add: buffer'_def)
  have lo: "length out' = length out + 2048" using lb by (simp add: out'_def)
  have unfold: "cat_loop inFile buffer out
      = (if 0 < length got then cat_loop inFile' buffer' out' else out')"
    by (subst cat_loop.simps)
       (simp add: rd Let_def buffer'_def out'_def)
  show ?case
  proof (cases "0 < n")
    case True
    then have pos: "0 < length got" by (simp add: lg)
    have "length (cat_loop inFile' buffer' out')
        = length out' + 2048 * ((length (bytes (fst inFile')) - snd inFile' + 2047) div 2048 + 1)"
    proof (rule "1.IH")
      show "(int (length got), got, inFile') = sys_read inFile 2048" by (simp add: rd)
      show "(got, inFile') = (got, inFile')" by (rule refl)
      show "buffer' = got @ drop (length got) buffer" by (rule buffer'_def)
      show "out' = out @ take 2048 buffer'" by (rule out'_def)
      show "0 < int (length got)" using pos by simp
      show "\<not> S_ISDIR (st_mode (fst inFile'))" using "1.prems"(1) by (simp add: inFile'_def)
      show "length buffer' = 2048" by (rule lb)
    qed
    moreover have "length (bytes (fst inFile')) - snd inFile' = n - min 2048 n"
      by (simp add: inFile'_def lg n_def)
    ultimately have "length (cat_loop inFile buffer out)
        = length out + 2048 + 2048 * ((n - min 2048 n + 2047) div 2048 + 1)"
      using pos by (simp only: unfold lo if_True)
    also have "\<dots> = length out + 2048 * ((n + 2047) div 2048 + 1)"
      using chunk_count [OF True] by simp
    finally show ?thesis by (simp only: n_def)
  next
    case False
    then have "length got = 0" by (simp add: lg)
    then have "cat_loop inFile buffer out = out'" by (simp only: unfold) simp
    moreover have "n = 0" using False by simp
    ultimately show ?thesis using lo by (simp add: n_def [symmetric])
  qed
qed

text \<open>
  C1. The claim: \<open>cat F\<close> writes exactly the bytes of \<open>F\<close> and nothing more. The
  code does otherwise: every turn of the read loop writes all 2048 bytes of the buffer,
  whatever \<open>read\<close> returned, and the turn whose \<open>read\<close> returns 0 writes them once
  more. So for every regular file the output is a whole number of buffers, at least one
  more than the file fills, and never the content of the file.
\<close>

theorem cat_writes_whole_buffers:
  assumes "sys_open w name = Inr (i, 0)" and "\<not> S_ISDIR (st_mode i)"
  shows "length (stdout (do_cat name w))
           = length (stdout w) + 2048 * ((length (bytes i) + 2047) div 2048 + 1)
       \<and> stdout (do_cat name w) \<noteq> stdout w @ bytes i"
proof -
  have lb: "length (auto_buffer w) = 2048" by (simp add: auto_buffer_def)
  have "length (cat_loop (i, 0) (auto_buffer w) [])
      = length ([]::string) + 2048 * ((length (bytes (fst (i, 0::nat))) - snd (i, 0::nat) + 2047) div 2048 + 1)"
    by (rule cat_loop_length) (use assms lb in simp_all)
  then have len: "length (stdout (do_cat name w))
           = length (stdout w) + 2048 * ((length (bytes i) + 2047) div 2048 + 1)"
    using assms(1) by (simp add: do_cat_def put_out_def)
  have "length (bytes i) < 2048 * ((length (bytes i) + 2047) div 2048 + 1)"
    by (simp add: less_mult_imp_div_less dividend_less_times_div) 
  then have "length (stdout (do_cat name w)) \<noteq> length (stdout w @ bytes i)"
    using len by simp
  then have "stdout (do_cat name w) \<noteq> stdout w @ bytes i" by metis
  with len show ?thesis by simp
qed

theorem cat_writes_whole_buffers_witness:
  "sys_open demo ''/tmp/a'' = Inr (file_inode ''hi'', 0)
   \<and> \<not> S_ISDIR (st_mode (file_inode ''hi''))
   \<and> length (stdout (do_cat ''/tmp/a'' demo)) = 4096
   \<and> stdout (do_cat ''/tmp/a'' demo) \<noteq> ''hi''"
proof -
  have a: "sys_open demo ''/tmp/a'' = Inr (file_inode ''hi'', 0)"
    by (simp add: fs_defs demo_defs)
  have b: "\<not> S_ISDIR (st_mode (file_inode ''hi''))"
    by (simp add: fs_defs demo_defs)
  have c: "stdout demo = []" "bytes (file_inode ''hi'') = ''hi''"
    by (simp_all add: demo_defs)
  show ?thesis using a b cat_writes_whole_buffers [OF a b] by (simp add: c)
qed

section \<open>Which built-in a line selects\<close>

lemmas spec_defs = stripped_def first_token_def diagnostic_def command_keywords_def
  scanned_keywords_def

lemma match_literal_Some: "match_literal kw b = Some rest \<Longrightarrow> b = kw @ rest"
  by (induction kw b rule: match_literal.induct) (auto split: if_splits)

lemma sscanf_prefix: "sscanf b kw = Some tok \<Longrightarrow> prefix kw b"
  by (auto simp: sscanf_def split: option.splits dest: match_literal_Some)

lemma sscanf_None: "\<not> prefix kw b \<Longrightarrow> sscanf b kw = None"
  using sscanf_prefix by (cases "sscanf b kw") auto

lemma strncmp0_eq:
  "length k < n \<Longrightarrow> strncmp0 b k n \<longleftrightarrow> b = k"
proof
  assume k: "length k < n" and "strncmp0 b k n"
  then have t: "take n b = k" by (simp add: strncmp0_def)
  then have "length (take n b) < n" using k by simp
  then have "length b < n" by (simp add: min_def split: if_splits)
  then show "b = k" using t by simp
next
  assume "b = k" then show "strncmp0 b k n" by (simp add: strncmp0_def)
qed

lemma strncmp0_keyword [simp]:
  "strncmp0 b ''cd'' MAX_BUFFER_LENGTH \<longleftrightarrow> b = ''cd''"
  "strncmp0 b ''exit'' MAX_BUFFER_LENGTH \<longleftrightarrow> b = ''exit''"
  "strncmp0 b ''ls'' MAX_BUFFER_LENGTH \<longleftrightarrow> b = ''ls''"
  "strncmp0 b ''pwd'' MAX_BUFFER_LENGTH \<longleftrightarrow> b = ''pwd''"
  by (simp_all add: strncmp0_eq MAX_BUFFER_LENGTH_def)

lemma keyword_of_listed: "c \<noteq> Invalid \<Longrightarrow> keyword_of c \<in> set command_keywords"
  by (cases c) (simp_all add: command_keywords_def)

lemma sscanf_Some_prefix: "sscanf b kw \<noteq> None \<Longrightarrow> prefix kw b"
  using sscanf_prefix by (cases "sscanf b kw") auto

lemma select_keyword:
  assumes "fst (select b w) = c" and "c \<noteq> Invalid"
  shows "prefix (keyword_of c) b \<and> c \<noteq> Cd \<and> c \<noteq> Exit \<and> (c = Pwd \<longrightarrow> b = ''pwd'')"
proof -
  consider (cat) "sscanf b ''cat'' \<noteq> None"
    | (stat) "sscanf b ''cat'' = None" "sscanf b ''stat'' \<noteq> None"
    | (mkdir) "sscanf b ''cat'' = None" "sscanf b ''stat'' = None" "sscanf b ''mkdir'' \<noteq> None"
    | (rmdir) "sscanf b ''cat'' = None" "sscanf b ''stat'' = None" "sscanf b ''mkdir'' = None"
        "sscanf b ''rmdir'' \<noteq> None"
    | (rm) "sscanf b ''cat'' = None" "sscanf b ''stat'' = None" "sscanf b ''mkdir'' = None"
        "sscanf b ''rmdir'' = None" "sscanf b ''rm'' \<noteq> None"
    | (ls) "sscanf b ''cat'' = None" "sscanf b ''stat'' = None" "sscanf b ''mkdir'' = None"
        "sscanf b ''rmdir'' = None" "sscanf b ''rm'' = None" "sscanf b ''ls'' \<noteq> None"
    | (rest) "sscanf b ''cat'' = None" "sscanf b ''stat'' = None" "sscanf b ''mkdir'' = None"
        "sscanf b ''rmdir'' = None" "sscanf b ''rm'' = None" "sscanf b ''ls'' = None"
    by blast
  then show ?thesis
  proof cases
    case cat
    then have "fst (select b w) = Cat" by (auto simp: select_def)
    with assms(1) sscanf_Some_prefix [OF cat] show ?thesis by auto
  next
    case stat
    then have "fst (select b w) = Stat" by (auto simp: select_def)
    with assms(1) sscanf_Some_prefix [OF stat(2)] show ?thesis by auto
  next
    case mkdir
    then have "fst (select b w) = Mkdir" by (auto simp: select_def)
    with assms(1) sscanf_Some_prefix [OF mkdir(3)] show ?thesis by auto
  next
    case rmdir
    then have "fst (select b w) = Rmdir" by (auto simp: select_def)
    with assms(1) sscanf_Some_prefix [OF rmdir(4)] show ?thesis by auto
  next
    case rm
    then have "fst (select b w) = Rm" by (auto simp: select_def)
    with assms(1) sscanf_Some_prefix [OF rm(5)] show ?thesis by auto
  next
    case ls
    then have "fst (select b w) = Ls" by (auto simp: select_def)
    with assms(1) sscanf_Some_prefix [OF ls(6)] show ?thesis by auto
  next
    case rest
    then have "fst (select b w)
        = (if b = ''ls'' then Ls else if b = ''pwd'' then Pwd else Invalid)"
      by (simp add: select_def)
    with assms show ?thesis by (auto split: if_splits)
  qed
qed

text \<open>
  C3. The claim: a line is dispatched to a built-in only when its first
  white-space-delimited token is one of the nine keywords. It fails for the seven
  keywords that are matched with \<open>sscanf\<close>: the formats \<open>"cat %s"\<close>, \<open>"cd %s"\<close>,
  ... match the keyword's characters and then any amount of white space, also none,
  so \<open>catfoo\<close> runs \<open>cat\<close> on \<open>foo\<close>. What holds: a line is dispatched to \<open>cd\<close>,
  \<open>cat\<close>, \<open>stat\<close>, \<open>mkdir\<close>, \<open>rmdir\<close>, \<open>rm\<close> or \<open>ls\<close> only when it begins with the
  characters of that keyword, and to \<open>exit\<close> or \<open>pwd\<close> only when the whole line is
  that keyword; every other line is dispatched to no built-in.
\<close>

theorem dispatch_needs_keyword:
  assumes "fst (dispatch buffer w) = c" and "c \<noteq> Invalid"
  shows "keyword_of c \<in> set command_keywords
       \<and> prefix (keyword_of c) buffer
       \<and> (c = Exit \<or> c = Pwd \<longrightarrow> buffer = keyword_of c)"
proof -
  have "prefix (keyword_of c) buffer \<and> (c = Exit \<or> c = Pwd \<longrightarrow> buffer = keyword_of c)"
  proof (cases "sscanf buffer ''cd''")
    case (Some tok)
    then have "c = Cd" using assms(1) by (simp add: dispatch_def)
    with Some show ?thesis by (auto dest: sscanf_prefix)
  next
    case None
    show ?thesis
    proof (cases "buffer = ''cd'' \<or> buffer = ''exit''")
      case True
      with None assms(1) show ?thesis by (auto simp: dispatch_def)
    next
      case False
      with None assms(1) have "fst (select buffer w) = c" by (simp add: dispatch_def)
      from select_keyword [OF this assms(2)] show ?thesis by auto
    qed
  qed
  with keyword_of_listed [OF assms(2)] show ?thesis by simp
qed

theorem dispatch_needs_keyword_witness:
  "fst (dispatch ''catfoo'' demo) = Cat \<and> Cat \<noteq> Invalid \<and> prefix ''cat'' ''catfoo''
   \<and> fst (dispatch ''exit'' demo) = Exit \<and> Exit \<noteq> Invalid
   \<and> fst (dispatch ''exit now'' demo) = Invalid \<and> fst (dispatch ''pwdx'' demo) = Invalid"
proof -
  have a: "fst (dispatch ''catfoo'' demo) = Cat" by (simp add: dispatch_def select_def libc_defs)
  have b: "Cat \<noteq> Invalid" by simp
  have c: "fst (dispatch ''exit'' demo) = Exit" by (simp add: dispatch_def select_def libc_defs)
  have d: "Exit \<noteq> Invalid" by simp
  have e: "fst (dispatch ''exit now'' demo) = Invalid" "fst (dispatch ''pwdx'' demo) = Invalid"
    by (simp_all add: dispatch_def select_def libc_defs)
  have p: "prefix ''cat'' ''catfoo''"
    using dispatch_needs_keyword [OF a b, THEN conjunct2, THEN conjunct1]
    by (simp only: keyword_of.simps)
  show ?thesis using a b c d e p by blast
qed

theorem dispatch_on_token_counterexample:
  "first_token ''catfoo'' \<notin> set command_keywords \<and> fst (dispatch ''catfoo'' demo) = Cat
   \<and> filename (snd (dispatch ''catfoo'' demo)) = ''foo''"
  by (simp add: first_token_def command_keywords_def dispatch_def select_def libc_defs)

section \<open>Lines that select no built-in\<close>

lemma on_line_stripped:
  assumes "NUL \<notin> set line" and "length line < MAX_BUFFER_LENGTH" and "stripped line \<noteq> []"
  shows "on_line line w = on_buffer (stripped line) (w\<lparr>filename := []\<rparr>)"
  using strip_trailing_whitespace_line [OF assms] by (auto simp: on_line_def)

lemma stripped_no_NUL: "NUL \<notin> set line \<Longrightarrow> NUL \<notin> set (stripped line)"
  using line_split [of line] by (metis Un_iff set_append)

lemma dispatch_invalid:
  assumes "\<not> list_ex (\<lambda>k. prefix k b) scanned_keywords" and "b \<noteq> ''exit''" and "b \<noteq> ''pwd''"
  shows "dispatch b w = (Invalid, w)" and "select b w = (Invalid, w)"
proof -
  from assms(1) have "sscanf b ''cd'' = None" "sscanf b ''cat'' = None"
      "sscanf b ''stat'' = None" "sscanf b ''mkdir'' = None"
      "sscanf b ''rmdir'' = None" "sscanf b ''rm'' = None"
      "sscanf b ''ls'' = None" "b \<noteq> ''cd''" "b \<noteq> ''ls''"
    by (auto simp: scanned_keywords_def intro: sscanf_None)
  with assms(2,3) show "dispatch b w = (Invalid, w)" and "select b w = (Invalid, w)"
    by (simp_all add: dispatch_def select_def)
qed

lemma on_buffer_invalid:
  assumes "\<not> list_ex (\<lambda>k. prefix k b) scanned_keywords" and "b \<noteq> ''exit''" and "b \<noteq> ''pwd''"
    and "b \<noteq> []" and "NUL \<notin> set b"
  shows "on_buffer b w = Running (w\<lparr>stderr := stderr w @ diagnostic b\<rparr>)"
proof -
  have "strnlen b MAX_BUFFER_LENGTH \<noteq> 0"
    using assms(4,5) by (simp add: strnlen_def cstr_no_NUL MAX_BUFFER_LENGTH_def)
  then show ?thesis
    by (simp add: on_buffer_def execute_command_def dispatch_invalid [OF assms(1-3)]
        invalid_command_def put_err_def diagnostic_def)
qed

lemma first_token_hd:
  assumes "prefix k line" and "k \<noteq> []" and "\<not> isspace (hd k)"
  shows "hd (first_token line) = hd k"
proof -
  from assms(1) obtain r where line: "line = k @ r" by (auto simp: prefix_def)
  from assms(2) obtain x xs where k: "k = x # xs" by (cases k) auto
  with assms(3) have "\<not> isspace x" by simp
  then show ?thesis by (simp add: first_token_def line k)
qed

lemma prefix_stripped: "prefix (stripped line) line"
  using line_split [of line] by (metis prefixI)

lemma exit_token_no_keyword:
  assumes "first_token line = ''exit''"
  shows "\<not> list_ex (\<lambda>k. prefix k (stripped line)) scanned_keywords"
    and "stripped line \<noteq> ''pwd''" and "stripped line \<noteq> []"
proof -
  have no: "\<not> prefix k (stripped line)"
    if "k \<noteq> []" "\<not> isspace (hd k)" "hd k \<noteq> CHR ''e''" for k
  proof
    assume "prefix k (stripped line)"
    then have "prefix k line" using prefix_stripped prefix_order.order_trans by blast
    from first_token_hd [OF this that(1,2)] assms that(3) show False by simp
  qed
  show "\<not> list_ex (\<lambda>k. prefix k (stripped line)) scanned_keywords"
    using no [of "''cd''"] no [of "''cat''"] no [of "''stat''"] no [of "''mkdir''"]
      no [of "''rmdir''"] no [of "''rm''"] no [of "''ls''"]
    by (simp add: scanned_keywords_def isspace_def)
  show "stripped line \<noteq> ''pwd''"
    using no [of "''pwd''"] by (auto simp: isspace_def)
  have "dropWhile isspace line \<noteq> []"
  proof
    assume "dropWhile isspace line = []"
    then have "first_token line = []" by (simp only: first_token_def takeWhile.simps)
    with assms show False by simp
  qed
  then obtain x where "x \<in> set line" "\<not> isspace x" by (auto simp: dropWhile_eq_Nil_conv)
  then have "dropWhile isspace (rev line) \<noteq> []" by (auto simp: dropWhile_eq_Nil_conv)
  then show "stripped line \<noteq> []" by (simp add: stripped_def)
qed

lemma on_line_invalid:
  assumes "NUL \<notin> set line" and "length line < MAX_BUFFER_LENGTH" and "stripped line \<noteq> []"
    and "\<not> list_ex (\<lambda>k. prefix k (stripped line)) scanned_keywords"
    and "stripped line \<noteq> ''exit''" and "stripped line \<noteq> ''pwd''"
  shows "on_line line w
    = Running (w\<lparr>filename := [], stderr := stderr w @ diagnostic (stripped line)\<rparr>)"
  using on_buffer_invalid [OF assms(4-6) assms(3) stripped_no_NUL [OF assms(1)],
      of "w\<lparr>filename := []\<rparr>"]
  by (simp add: on_line_stripped [OF assms(1-3)])

lemma dispatch_Exit: "dispatch b w = (Exit, w1) \<Longrightarrow> b = ''exit''"
  by (auto simp: dispatch_def select_def split: option.splits if_splits)

lemma on_buffer_Exited: "on_buffer b w = Exited c w' \<Longrightarrow> b = ''exit'' \<and> c = 0"
  by (auto simp: on_buffer_def split: prod.splits builtin.splits sum.splits dest: dispatch_Exit)

lemma on_buffer_exit: "on_buffer ''exit'' w = Exited 0 w"
  by (simp add: on_buffer_def dispatch_def libc_defs)

lemma on_line_Exited:
  assumes "NUL \<notin> set line" and "length line < MAX_BUFFER_LENGTH"
    and "on_line line w = Exited c w'"
  shows "stripped line = ''exit'' \<and> c = 0"
proof (cases "stripped line = []")
  case True
  then have "list_all isspace line"
    by (simp add: stripped_def list_all_iff)
  from strip_blank [OF this assms(2)] assms(3) show ?thesis by (simp add: on_line_def)
next
  case False
  from on_line_stripped [OF assms(1,2) False] assms(3)
  show ?thesis by (auto dest: on_buffer_Exited)
qed

text \<open>
  C6. The claim: every non-empty line whose first token is no keyword gets the
  diagnostic \<open>myshell: <line>: No such file or directory\<close> on the error stream, with
  all state unchanged, and the loop goes on. It fails for the same reason as C3:
  \<open>cdtmp\<close> has the first token \<open>cdtmp\<close>, yet it changes the working directory and
  prints nothing. What holds: a line that, without its trailing white space, is not
  empty, begins with the characters of none of \<open>cd\<close>, \<open>cat\<close>, \<open>stat\<close>, \<open>mkdir\<close>,
  \<open>rmdir\<close>, \<open>rm\<close>, \<open>ls\<close> and is neither \<open>exit\<close> nor \<open>pwd\<close> gets exactly the
  diagnostic; the file system, the working directory, the input and standard output
  stay as they were (the array \<open>filename\<close> has been cleared by the \<open>memset\<close> of
  \<open>main\<close>), and the loop goes on.
\<close>

theorem unknown_command_diagnostic:
  assumes "NUL \<notin> set line" and "length line < MAX_BUFFER_LENGTH" and "stripped line \<noteq> []"
    and "\<not> list_ex (\<lambda>k. prefix k (stripped line)) scanned_keywords"
    and "stripped line \<noteq> ''exit''" and "stripped line \<noteq> ''pwd''"
  shows "on_line line w
    = Running (w\<lparr>filename := [], stderr := stderr w @ diagnostic (stripped line)\<rparr>)"
  using assms by (rule on_line_invalid)

theorem unknown_command_diagnostic_witness:
  "NUL \<notin> set (''foobar'' @ endl) \<and> length (''foobar'' @ endl) < MAX_BUFFER_LENGTH
   \<and> stripped (''foobar'' @ endl) = ''foobar''
   \<and> \<not> list_ex (\<lambda>k. prefix k ''foobar'') scanned_keywords
   \<and> on_line (''foobar'' @ endl) demo
       = Running (demo\<lparr>filename := [],
           stderr := ''myshell: foobar: No such file or directory'' @ endl\<rparr>)"
proof -
  have s: "stripped (''foobar'' @ endl) = ''foobar''" by (simp add: spec_defs libc_defs)
  have a: "NUL \<notin> set (''foobar'' @ endl)" by (simp add: libc_defs)
  have b: "length (''foobar'' @ endl) < MAX_BUFFER_LENGTH" by (simp add: libc_defs)
  have c: "stripped (''foobar'' @ endl) \<noteq> []" unfolding s by simp
  have d: "\<not> list_ex (\<lambda>k. prefix k (stripped (''foobar'' @ endl))) scanned_keywords"
    unfolding s by (simp add: spec_defs)
  have e: "stripped (''foobar'' @ endl) \<noteq> ''exit''" "stripped (''foobar'' @ endl) \<noteq> ''pwd''"
    unfolding s by simp_all
  have f: "stderr demo = []" by (simp add: demo_def)
  show ?thesis
    using a b s d unknown_command_diagnostic [OF a b c d e, of demo]
    unfolding s f diagnostic_def by simp
qed

theorem unknown_token_counterexample:
  "''cdtmp'' \<noteq> [] \<and> first_token ''cdtmp'' \<notin> set command_keywords
   \<and> on_line (''cdtmp'' @ endl) demo = Running (demo\<lparr>filename := ''tmp'', cwd := [''tmp'']\<rparr>)"
  by (simp add: spec_defs libc_defs shell_defs fs_defs demo_defs)

text \<open>
  C9. A line whose first token is \<open>exit\<close> and that holds more text (so that, without
  its trailing white space, it is not just \<open>exit\<close>) does not end the process: it gets
  the diagnostic of an unknown command and the loop goes on. The process exits, with
  code 0, on the line that is \<open>exit\<close> once its trailing white space is gone, and on no
  other line. A line here is what one call of \<open>fgets\<close> delivers.
\<close>

theorem exit_must_be_the_whole_line:
  assumes "NUL \<notin> set line" and "length line < MAX_BUFFER_LENGTH"
  shows "(first_token line = ''exit'' \<and> stripped line \<noteq> ''exit'' \<longrightarrow>
            on_line line w
              = Running (w\<lparr>filename := [], stderr := stderr w @ diagnostic (stripped line)\<rparr>))
       \<and> (\<forall>c w'. on_line line w = Exited c w' \<longrightarrow> stripped line = ''exit'' \<and> c = 0)
       \<and> (stripped line = ''exit'' \<longrightarrow> on_line line w = Exited 0 (w\<lparr>filename := []\<rparr>))"
proof (intro conjI impI allI)
  assume a: "first_token line = ''exit'' \<and> stripped line \<noteq> ''exit''"
  then have t: "first_token line = ''exit''" and n: "stripped line \<noteq> ''exit''" by simp_all
  show "on_line line w
      = Running (w\<lparr>filename := [], stderr := stderr w @ diagnostic (stripped line)\<rparr>)"
    by (rule on_line_invalid [OF assms exit_token_no_keyword(3) [OF t]
        exit_token_no_keyword(1) [OF t] n exit_token_no_keyword(2) [OF t]])
next
  fix c w' assume "on_line line w = Exited c w'"
  from on_line_Exited [OF assms this] show "stripped line = ''exit''" and "c = 0" by simp_all
next
  assume e: "stripped line = ''exit''"
  then have "stripped line \<noteq> []" by simp
  from on_line_stripped [OF assms this] show "on_line line w = Exited 0 (w\<lparr>filename := []\<rparr>)"
    by (simp add: e on_buffer_exit)
qed

theorem exit_must_be_the_whole_line_witness:
  "NUL \<notin> set (''exit now'' @ endl) \<and> length (''exit now'' @ endl) < MAX_BUFFER_LENGTH
   \<and> first_token (''exit now'' @ endl) = ''exit'' \<and> stripped (''exit now'' @ endl) = ''exit now''
   \<and> on_line (''exit now'' @ endl) demo
       = Running (demo\<lparr>filename := [],
           stderr := ''myshell: exit now: No such file or directory'' @ endl\<rparr>)
   \<and> NUL \<notin> set (''exit  '' @ endl) \<and> length (''exit  '' @ endl) < MAX_BUFFER_LENGTH
   \<and> stripped (''exit  '' @ endl) = ''exit''
   \<and> on_line (''exit  '' @ endl) demo = Exited 0 (demo\<lparr>filename := []\<rparr>)"
proof -
  have a: "NUL \<notin> set (''exit now'' @ endl)" "NUL \<notin> set (''exit  '' @ endl)"
    by (simp_all add: libc_defs)
  have b: "length (''exit now'' @ endl) < MAX_BUFFER_LENGTH"
    "length (''exit  '' @ endl) < MAX_BUFFER_LENGTH"
    by (simp_all add: libc_defs)
  have t: "first_token (''exit now'' @ endl) = ''exit''" by (simp add: spec_defs libc_defs)
  have s: "stripped (''exit now'' @ endl) = ''exit now''" "stripped (''exit  '' @ endl) = ''exit''"
    by (simp_all add: spec_defs libc_defs)
  have n: "stripped (''exit now'' @ endl) \<noteq> ''exit''" unfolding s by simp
  have f: "stderr demo = []" by (simp add: demo_def)
  have 1: "on_line (''exit now'' @ endl) demo
       = Running (demo\<lparr>filename := [],
           stderr := ''myshell: exit now: No such file or directory'' @ endl\<rparr>)"
    using exit_must_be_the_whole_line [OF a(1) b(1), of demo] t n
    unfolding s f diagnostic_def by simp
  have 2: "on_line (''exit  '' @ endl) demo = Exited 0 (demo\<lparr>filename := []\<rparr>)"
    using exit_must_be_the_whole_line [OF a(2) b(2), of demo] s(2) by blast
  show ?thesis using a b t s 1 2 by blast
qed

section \<open>Path names\<close>

text \<open>
  The calls that look a name up read only the table and the working directory; a
  successful walk ends where the normal form of the name says.
\<close>

lemma lookup_frame: "fs w' = fs w \<Longrightarrow> cwd w' = cwd w \<Longrightarrow> lookup w' name = lookup w name"
  by (auto simp: lookup_def start_dir_def split: sum.splits option.splits)

lemma sys_stat_frame: "fs w' = fs w \<Longrightarrow> cwd w' = cwd w \<Longrightarrow> sys_stat w' name = sys_stat w name"
  by (simp add: sys_stat_def lookup_frame [of w' w])

lemma print_entry_frame [simp]:
  "fs (print_entry n d w) = fs w" "cwd (print_entry n d w) = cwd w"
  "stderr (print_entry n d w) = stderr w"
  by (simp_all add: print_entry_def put_out_def)

lemma put_frame [simp]:
  "fs (put_out w s) = fs w" "cwd (put_out w s) = cwd w" "stderr (put_out w s) = stderr w"
  "stdout (put_out w s) = stdout w @ s"
  "fs (put_err w s) = fs w" "cwd (put_err w s) = cwd w" "stdout (put_err w s) = stdout w"
  "stderr (put_err w s) = stderr w @ s"
  by (simp_all add: put_out_def put_err_def)

lemma ls_entries_frame: "fs (ls_entries names info w) = fs w \<and> cwd (ls_entries names info w) = cwd w"
  by (induction names arbitrary: info w) (auto split: sum.splits)

lemma walk_lexical: "walk t s cs = Inr p \<Longrightarrow> p = lexical s cs"
  by (induction cs arbitrary: s) (auto split: option.splits if_splits)

lemma walk_append:
  "walk t s (cs @ ds) = (case walk t s cs of Inl e \<Rightarrow> Inl e | Inr p \<Rightarrow> walk t p ds)"
  by (induction cs arbitrary: s) (auto split: option.splits)

lemma split_path_not_Nil [simp]: "split_path s \<noteq> []"
  by (induction s) (auto split: list.splits)

lemma split_path_append: "split_path (a @ CHR ''/'' # b) = split_path a @ split_path b"
  by (induction a) (auto split: list.splits)

lemma split_path_plain: "CHR ''/'' \<notin> set n \<Longrightarrow> split_path n = [n]"
  by (induction n) auto

lemma walk_single:
  assumes "walk t p [n] = Inr q"
  shows "\<exists>d. map_of t p = Some d \<and> S_ISDIR (st_mode d) \<and> may_search (st_mode d)"
  using assms by (auto split: option.splits if_splits)

lemma stat_inside:
  assumes st: "sys_stat w (D @ CHR ''/'' # n) = Inr i" and D: "D \<noteq> []"
    and n: "n \<noteq> []" "CHR ''/'' \<notin> set n"
  shows "\<exists>p d. lookup w D = Inr (p, d) \<and> S_ISDIR (st_mode d) \<and> may_search (st_mode d)
           \<and> sys_stat (w\<lparr>cwd := p\<rparr>) n = Inr i"
proof -
  let ?t = "fs w" and ?s = "start_dir w D"
  have start: "start_dir w (D @ CHR ''/'' # n) = ?s" using D by (simp add: start_dir_def)
  have split: "split_path (D @ CHR ''/'' # n) = split_path D @ [n]"
    by (simp add: split_path_append split_path_plain [OF n(2)])
  from st obtain q where w1: "walk ?t ?s (split_path D @ [n]) = Inr q"
      and q: "map_of ?t q = Some i"
    by (auto simp: sys_stat_def lookup_def start split split: sum.splits option.splits)
  from w1 obtain p where wp: "walk ?t ?s (split_path D) = Inr p" and wn: "walk ?t p [n] = Inr q"
    by (auto simp: walk_append split: sum.splits)
  from walk_single [OF wn] obtain d where d: "map_of ?t p = Some d" "S_ISDIR (st_mode d)"
      "may_search (st_mode d)" by blast
  have "lookup w D = Inr (p, d)" using D wp d(1) by (simp add: lookup_def)
  moreover have "start_dir (w\<lparr>cwd := p\<rparr>) n = p"
    using n by (cases n) (auto simp: start_dir_def)
  then have "sys_stat (w\<lparr>cwd := p\<rparr>) n = Inr i"
    using n wn q by (simp add: sys_stat_def lookup_def split_path_plain [OF n(2)])
  ultimately show ?thesis using d by blast
qed

lemma opendir_nonempty: "sys_opendir w D = Inr names \<Longrightarrow> D \<noteq> []"
  by (auto simp: sys_opendir_def lookup_def)

lemma sys_chdir_result:
  assumes "sys_chdir w D = Inr w'"
  shows "\<exists>i. map_of (fs w) (lexical (start_dir w D) (split_path D)) = Some i
           \<and> w' = w\<lparr>cwd := lexical (start_dir w D) (split_path D)\<rparr>"
  using assms
  by (auto simp: sys_chdir_def lookup_def split: sum.splits option.splits if_splits
      dest: walk_lexical)

lemma sys_chdir_filename:
  "sys_chdir w D = Inr w' \<Longrightarrow> sys_chdir (w\<lparr>filename := f\<rparr>) D = Inr (w'\<lparr>filename := f\<rparr>)"
  by (auto simp: sys_chdir_def lookup_def start_dir_def split: sum.splits option.splits if_splits)

lemma lexical_plain:
  "list_all (\<lambda>c. c \<noteq> [] \<and> c \<noteq> ''.'' \<and> c \<noteq> ''..'') p \<Longrightarrow> lexical q p = q @ p"
  by (induction p arbitrary: q) auto

lemma split_path_render:
  "p \<noteq> [] \<Longrightarrow> list_all (\<lambda>c. CHR ''/'' \<notin> set c) p
     \<Longrightarrow> split_path (concat (map (\<lambda>c. CHR ''/'' # c) p)) = [] # p"
proof (induction p)
  case Nil
  then show ?case by simp
next
  case (Cons c cs)
  show ?case
  proof (cases "cs = []")
    case True
    with Cons.prems show ?thesis by (simp add: split_path_plain)
  next
    case False
    with Cons have ih: "split_path (concat (map (\<lambda>c. CHR ''/'' # c) cs)) = [] # cs" by simp
    from False obtain d ds where cs: "cs = d # ds" by (cases cs) auto
    let ?X = "d @ concat (map (\<lambda>c. CHR ''/'' # c) ds)"
    have X: "split_path ?X = cs" using ih by (simp add: cs)
    have "split_path (c @ CHR ''/'' # ?X) = [c] @ cs"
      using Cons.prems X by (simp add: split_path_append split_path_plain)
    then show ?thesis by (simp add: cs)
  qed
qed

lemma normalized_absolute:
  assumes "list_all (\<lambda>c. c \<noteq> [] \<and> c \<noteq> ''.'' \<and> c \<noteq> ''..'' \<and> CHR ''/'' \<notin> set c) p"
  shows "normalized w (render p) = render p"
proof (cases "p = []")
  case True
  then show ?thesis by (simp add: normalized_def render_def start_dir_def)
next
  case False
  then obtain c cs where p: "p = c # cs" by (cases p) auto
  have 1: "list_all (\<lambda>c. CHR ''/'' \<notin> set c) p"
    and 2: "list_all (\<lambda>c. c \<noteq> [] \<and> c \<noteq> ''.'' \<and> c \<noteq> ''..'') p"
    using assms by (auto simp: list_all_iff)
  have "start_dir w (render p) = []" by (simp add: start_dir_def render_def p)
  moreover have "split_path (render p) = [] # p"
    using split_path_render [OF False 1] False by (simp add: render_def)
  ultimately have "lexical (start_dir w (render p)) (split_path (render p)) = p"
    using lexical_plain [OF 2, of "[]"] by simp
  then show ?thesis by (simp add: normalized_def)
qed

section \<open>ls\<close>

text \<open>
  C8. The claim: for every directory that can be opened, \<open>ls\<close> leaves the process in
  the listed directory. It fails where the directory can be read but not entered:
  \<open>opendir\<close> needs read permission, \<open>chdir\<close> needs search permission, and \<open>do_ls\<close>
  does not look at what \<open>chdir\<close> returns. What holds: after \<open>ls\<close> of a directory that
  can be opened, the working directory is that directory if the process may search it,
  and what it was before otherwise.
\<close>

theorem ls_changes_directory_if_searchable:
  assumes "lookup w D = Inr (p, i)" and "S_ISDIR (st_mode i)" and "may_read (st_mode i)"
  shows "sys_opendir w D = Inr (readdir_all w p)
       \<and> cwd (do_ls D w) = (if may_search (st_mode i) then p else cwd w)"
  using assms by (simp add: do_ls_def sys_opendir_def sys_chdir_def ls_entries_frame)

theorem ls_changes_directory_witness:
  "lookup demo ''/tmp'' = Inr ([''tmp''], dir_inode 493) \<and> S_ISDIR (st_mode (dir_inode 493))
   \<and> may_read (st_mode (dir_inode 493)) \<and> may_search (st_mode (dir_inode 493))
   \<and> sys_opendir demo ''/tmp'' = Inr [''a'', ''b''] \<and> cwd (do_ls ''/tmp'' demo) = [''tmp'']"
proof -
  have a: "lookup demo ''/tmp'' = Inr ([''tmp''], dir_inode 493)" by (simp add: fs_defs demo_defs)
  have b: "S_ISDIR (st_mode (dir_inode 493))" "may_read (st_mode (dir_inode 493))"
    "may_search (st_mode (dir_inode 493))" by (simp_all add: fs_defs demo_defs)
  have c: "readdir_all demo [''tmp''] = [''a'', ''b'']" by (simp add: fs_defs demo_defs)
  show ?thesis using a b ls_changes_directory_if_searchable [OF a b(1,2)] by (simp add: c)
qed

theorem ls_unsearchable_counterexample:
  "sys_opendir demo ''locked'' = Inr [''a''] \<and> lookup demo ''locked'' = Inr ([''locked''], dir_inode 292)
   \<and> cwd demo = [] \<and> cwd (do_ls ''locked'' demo) = []"
  by (simp add: fs_defs demo_defs shell_defs)

lemma stdout_print_entry:
  "stdout (print_entry n d w) = stdout w @ (if d then dir_line n else plain_line n)"
  by (simp add: print_entry_def put_out_def dir_line_def plain_line_def)

lemma sys_stat_print_entry [simp]: "sys_stat (print_entry n d w) m = sys_stat w m"
  by (rule sys_stat_frame) simp_all

lemma ls_entries_lines:
  assumes "\<And>n. n \<in> set names \<Longrightarrow> \<exists>i. sys_stat w n = Inr i \<and> S_ISDIR (st_mode i) = tag n"
  shows "stdout (ls_entries names info w)
           = stdout w @ concat (map (\<lambda>n. if tag n then dir_line n else plain_line n) names)
       \<and> stderr (ls_entries names info w) = stderr w"
  using assms
proof (induction names arbitrary: info w)
  case Nil
  then show ?case by simp
next
  case (Cons n names)
  from Cons.prems [of n] obtain i where i: "sys_stat w n = Inr i" "S_ISDIR (st_mode i) = tag n"
    by auto
  have "stdout (ls_entries names (tag n) (print_entry n (tag n) w))
      = stdout (print_entry n (tag n) w)
          @ concat (map (\<lambda>n. if tag n then dir_line n else plain_line n) names)
    \<and> stderr (ls_entries names (tag n) (print_entry n (tag n) w))
      = stderr (print_entry n (tag n) w)"
    by (rule Cons.IH) (use Cons.prems in simp)
  then show ?case using i by (simp add: stdout_print_entry)
qed

lemma stat_dot:
  assumes "lookup w D = Inr (p, d)" and "S_ISDIR (st_mode d)" and "may_search (st_mode d)"
  shows "sys_stat (w\<lparr>cwd := p\<rparr>) ''.'' = Inr d"
proof -
  have "map_of (fs w) p = Some d"
    using assms(1) by (auto simp: lookup_def split: if_splits sum.splits option.splits)
  then show ?thesis using assms(2,3) by (simp add: sys_stat_def lookup_def start_dir_def)
qed

lemma count_list_replicate: "count_list (replicate n x) y = (if x = y then n else 0)"
  by (induction n) auto

text \<open>
  C5. The claim: \<open>ls\<close> of a directory that holds the regular file \<open>a\<close> and the
  directory \<open>b\<close> prints exactly two lines. It fails where \<open>readdir\<close> also returns
  \<open>.\<close> and \<open>..\<close>, as it does on the usual file systems: \<open>do_ls\<close> filters nothing
  and prints four lines. (It also fails in a directory that can be read but not
  searched, where every \<open>stat\<close> fails.) What holds, for a directory \<open>D\<close> that
  \<open>opendir\<close> opens, with \<open>D/a\<close> a regular file, \<open>D/b\<close> and \<open>D/..\<close> directories, and
  \<open>readdir\<close> returning \<open>a\<close>, \<open>b\<close> and, if the file system has them, \<open>.\<close> and
  \<open>..\<close>, in any order: \<open>ls D\<close> writes one line for each entry returned, in the
  order of enumeration, the line of \<open>a\<close> untagged and every other line tagged
  \<open><dir>\<close>, and nothing to the error stream. These are two lines exactly where
  \<open>readdir\<close> returns no dot entries.
\<close>

theorem ls_lists_every_entry:
  assumes "sys_opendir w D = Inr names" and "set names = {a, b} \<union> set (dot_entries w)"
    and "sys_stat w (D @ ''/'' @ a) = Inr ia" and "\<not> S_ISDIR (st_mode ia)"
    and "sys_stat w (D @ ''/'' @ b) = Inr ib" and "S_ISDIR (st_mode ib)"
    and "sys_stat w (D @ ''/..'') = Inr iu" and "S_ISDIR (st_mode iu)"
    and "a \<noteq> []" and "CHR ''/'' \<notin> set a" and "b \<noteq> []" and "CHR ''/'' \<notin> set b"
  shows "stdout (do_ls D w)
           = stdout w @ concat (map (\<lambda>n. if n = a then plain_line n else dir_line n) names)
       \<and> stderr (do_ls D w) = stderr w"
proof -
  have D: "D \<noteq> []" using assms(1) by (rule opendir_nonempty)
  from stat_inside [OF _ D assms(9,10), of w ia] assms(3)
  obtain p d where look: "lookup w D = Inr (p, d)" and d: "S_ISDIR (st_mode d)" "may_search (st_mode d)"
    and sa: "sys_stat (w\<lparr>cwd := p\<rparr>) a = Inr ia" by auto
  from stat_inside [OF _ D assms(11,12), of w ib] assms(5) look
  have sb: "sys_stat (w\<lparr>cwd := p\<rparr>) b = Inr ib" by auto
  from stat_inside [OF _ D, of w "''..''" iu] assms(7) look
  have su: "sys_stat (w\<lparr>cwd := p\<rparr>) ''..'' = Inr iu" by auto
  have sd: "sys_stat (w\<lparr>cwd := p\<rparr>) ''.'' = Inr d" by (rule stat_dot [OF look d])
  have cd: "sys_chdir w D = Inr (w\<lparr>cwd := p\<rparr>)" using look d by (simp add: sys_chdir_def)
  have ls: "do_ls D w = ls_entries names (stack_isdir w) (w\<lparr>cwd := p\<rparr>)"
    using assms(1) by (simp add: do_ls_def cd)
  have each: "\<exists>i. sys_stat (w\<lparr>cwd := p\<rparr>) n = Inr i \<and> S_ISDIR (st_mode i) = (n \<noteq> a)"
    if "n \<in> set names" for n
  proof -
    from that assms(2) consider "n = a" | "n = b" | "n = ''.''" | "n = ''..''"
      by (auto simp: dot_entries_def split: if_splits)
    then show ?thesis
    proof cases
      case 1 then show ?thesis using sa assms(4) by simp
    next
      case 2 then show ?thesis using sa sb assms(4,6) by auto
    next
      case 3 then show ?thesis using sa sd assms(4) d(1) by auto
    next
      case 4 then show ?thesis using sa su assms(4,8) by auto
    qed
  qed
  have "stdout (ls_entries names (stack_isdir w) (w\<lparr>cwd := p\<rparr>))
      = stdout (w\<lparr>cwd := p\<rparr>)
          @ concat (map (\<lambda>n. if n \<noteq> a then dir_line n else plain_line n) names)
    \<and> stderr (ls_entries names (stack_isdir w) (w\<lparr>cwd := p\<rparr>)) = stderr (w\<lparr>cwd := p\<rparr>)"
    by (rule ls_entries_lines) (rule each)
  moreover have "(\<lambda>n. if n \<noteq> a then dir_line n else plain_line n)
      = (\<lambda>n. if n = a then plain_line n else dir_line n)" by auto
  ultimately show ?thesis by (simp add: ls)
qed


theorem ls_lists_every_entry_witness:
  "sys_opendir demo_dots ''/tmp'' = Inr [''.'', ''..'', ''a'', ''b'']
   \<and> set [''.'', ''..'', ''a'', ''b''] = {''a'', ''b''} \<union> set (dot_entries demo_dots)
   \<and> sys_stat demo_dots (''/tmp'' @ ''/'' @ ''a'') = Inr (file_inode ''hi'')
   \<and> \<not> S_ISDIR (st_mode (file_inode ''hi''))
   \<and> sys_stat demo_dots (''/tmp'' @ ''/'' @ ''b'') = Inr (dir_inode 493)
   \<and> sys_stat demo_dots (''/tmp'' @ ''/..'') = Inr (dir_inode 493)
   \<and> S_ISDIR (st_mode (dir_inode 493))
   \<and> stdout (do_ls ''/tmp'' demo_dots)
       = dir_line ''.'' @ dir_line ''..'' @ plain_line ''a'' @ dir_line ''b''
   \<and> stderr (do_ls ''/tmp'' demo_dots) = []"
proof -
  have o: "sys_opendir demo_dots ''/tmp'' = Inr [''.'', ''..'', ''a'', ''b'']"
    by (simp add: fs_defs demo_defs)
  have n: "set [''.'', ''..'', ''a'', ''b''] = {''a'', ''b''} \<union> set (dot_entries demo_dots)"
    by (auto simp: dot_entries_def demo_defs)
  have a: "sys_stat demo_dots (''/tmp'' @ ''/'' @ ''a'') = Inr (file_inode ''hi'')"
    by (simp add: fs_defs demo_defs)
  have a': "\<not> S_ISDIR (st_mode (file_inode ''hi''))" by (simp add: fs_defs demo_defs)
  have b: "sys_stat demo_dots (''/tmp'' @ ''/'' @ ''b'') = Inr (dir_inode 493)"
    by (simp add: fs_defs demo_defs)
  have u: "sys_stat demo_dots (''/tmp'' @ ''/..'') = Inr (dir_inode 493)"
    by (simp add: fs_defs demo_defs)
  have b': "S_ISDIR (st_mode (dir_inode 493))" by (simp add: fs_defs demo_defs)
  have p: "''a'' \<noteq> []" "CHR ''/'' \<notin> set ''a''" "''b'' \<noteq> []" "CHR ''/'' \<notin> set ''b''" by simp_all
  have e: "stdout demo_dots = []" "stderr demo_dots = []" by (simp_all add: demo_defs)
  have "stdout (do_ls ''/tmp'' demo_dots)
       = dir_line ''.'' @ dir_line ''..'' @ plain_line ''a'' @ dir_line ''b''
   \<and> stderr (do_ls ''/tmp'' demo_dots) = []"
    using ls_lists_every_entry [OF o n a a' b b' u b' p] unfolding e by simp
  with o n a a' b u b' show ?thesis by blast
qed

theorem ls_dot_entries_counterexample:
  "children (fs demo_dots) [''tmp''] = [''a'', ''b'']
   \<and> sys_opendir demo_dots ''/tmp'' = Inr [''.'', ''..'', ''a'', ''b'']
   \<and> stdout (do_ls ''/tmp'' demo_dots)
       = dir_line ''.'' @ dir_line ''..'' @ plain_line ''a'' @ dir_line ''b''
   \<and> count_list (stdout (do_ls ''/tmp'' demo_dots)) (CHR 0x0A) = 4
   \<and> sys_opendir demo_locked ''locked'' = Inr [''a'', ''b'']
   \<and> stdout (do_ls ''locked'' demo_locked) = plain_line ''a'' @ plain_line ''b''
   \<and> stderr (do_ls ''locked'' demo_locked)
       = ''stat: a: No such file or directory'' @ endl
         @ ''stat: b: No such file or directory'' @ endl"
proof -
  have c: "children (fs demo_dots) [''tmp''] = [''a'', ''b'']" by (simp add: fs_defs demo_defs)
  have o: "sys_opendir demo_dots ''/tmp'' = Inr [''.'', ''..'', ''a'', ''b'']"
    by (simp add: fs_defs demo_defs)
  have s: "stdout (do_ls ''/tmp'' demo_dots)
       = dir_line ''.'' @ dir_line ''..'' @ plain_line ''a'' @ dir_line ''b''"
    by (simp add: fs_defs demo_defs do_ls_def print_entry_def put_out_def put_err_def
        dir_line_def plain_line_def)
  have "count_list (dir_line ''.'' @ dir_line ''..'' @ plain_line ''a'' @ dir_line ''b'')
      (CHR 0x0A) = 4"
    by (simp add: dir_line_def plain_line_def pad30_def endl_def count_list_replicate)
  with s have n: "count_list (stdout (do_ls ''/tmp'' demo_dots)) (CHR 0x0A) = 4" by simp
  have l: "sys_opendir demo_locked ''locked'' = Inr [''a'', ''b'']"
    by (simp add: fs_defs demo_defs)
  have lo: "stdout (do_ls ''locked'' demo_locked) = plain_line ''a'' @ plain_line ''b''"
    by (simp add: fs_defs demo_defs do_ls_def print_entry_def put_out_def put_err_def
        plain_line_def)
  have le: "stderr (do_ls ''locked'' demo_locked)
       = ''stat: a: No such file or directory'' @ endl
         @ ''stat: b: No such file or directory'' @ endl"
    by (simp add: fs_defs demo_defs do_ls_def print_entry_def put_out_def put_err_def)
  from c o s n l lo le show ?thesis by blast
qed

section \<open>cd and pwd\<close>

lemma stripped_line:
  assumes "D \<noteq> []" and "\<not> isspace (last D)"
  shows "stripped (x @ D @ endl) = x @ D"
proof -
  from assms(1) obtain y ys where r: "rev D = y # ys" by (cases "rev D") auto
  then have "y = last D" using assms(1) by (metis hd_rev list.sel(1))
  then have "\<not> isspace y" using assms(2) by simp
  then have "dropWhile isspace (rev (x @ D @ endl)) = rev D @ rev x"
    by (simp add: endl_def isspace_def r)
  then show ?thesis by (simp add: stripped_def)
qed

lemma sscanf_token:
  assumes "D \<noteq> []" and "list_all (\<lambda>c. \<not> isspace c \<and> c \<noteq> NUL) D"
  shows "sscanf (''cd '' @ D) ''cd'' = Some D"
proof -
  from assms obtain y ys where D: "D = y # ys" and y: "\<not> isspace y" by (cases D) auto
  have "takeWhile (\<lambda>c. \<not> isspace c) D = D"
    using assms(2) by (simp add: takeWhile_eq_all_conv list_all_iff)
  moreover have "dropWhile isspace (CHR 0x20 # D) = D" using y by (simp add: D isspace_def)
  ultimately show ?thesis using assms(1) by (simp add: sscanf_def scan_s_def)
qed

lemma on_line_pwd: "on_line (''pwd'' @ endl) w = Running (do_pwd (w\<lparr>filename := []\<rparr>))"
  by (simp add: on_line_def on_buffer_def dispatch_def select_def execute_command_def libc_defs)

text \<open>
  C4. The claim: after \<open>cd D\<close>, \<open>pwd\<close> prints exactly the normal form of \<open>D\<close> and
  nothing else. The code does otherwise: the body of \<open>do_pwd\<close> is that of
  \<open>display_prompt\<close>, with the format \<open>"%s>"\<close>, so for \<open>D\<close> a single token that
  \<open>chdir\<close> accepts and whose normal form fits the 256 bytes that \<open>getcwd\<close> is given,
  \<open>cd D\<close> prints nothing and \<open>pwd\<close> then appends the normal form of \<open>D\<close> followed
  by the prompt's \<open>>\<close>, without a newline. By \<open>normalized_absolute\<close>, an absolute
  path of plain names is its own normal form.
\<close>

theorem cd_then_pwd:
  assumes "D \<noteq> []" and "list_all (\<lambda>c. \<not> isspace c \<and> c \<noteq> NUL) D"
    and "length D + 4 < MAX_BUFFER_LENGTH"
    and "sys_chdir w D = Inr w'" and "length (normalized w D) < MAX_PATH_LENGTH"
  shows "on_line (''cd '' @ D @ endl) w = Running (w'\<lparr>filename := D\<rparr>)
       \<and> on_line (''pwd'' @ endl) (w'\<lparr>filename := D\<rparr>)
           = Running (w'\<lparr>filename := [], stdout := stdout w' @ normalized w D @ ''>''\<rparr>)"
proof -
  let ?line = "''cd '' @ D @ endl"
  have nonul: "NUL \<notin> set D" and nosp: "\<not> isspace (last D)"
    using assms(1,2) by (auto simp: list_all_iff)
  have s: "stripped ?line = ''cd '' @ D" by (rule stripped_line [OF assms(1) nosp])
  have "NUL \<notin> set ?line" using nonul by (simp add: NUL_def endl_def)
  moreover have "length ?line < MAX_BUFFER_LENGTH" using assms(3) by (simp add: endl_def)
  moreover have "stripped ?line \<noteq> []" unfolding s by simp
  ultimately have ol: "on_line ?line w = on_buffer (''cd '' @ D) (w\<lparr>filename := []\<rparr>)"
    unfolding s [symmetric] by (rule on_line_stripped)
  have "strnlen D MAX_PATH_LENGTH \<noteq> 0"
    using assms(1) nonul by (simp add: strnlen_def cstr_no_NUL MAX_PATH_LENGTH_def)
  then have "on_buffer (''cd '' @ D) (w\<lparr>filename := []\<rparr>) = Running (w'\<lparr>filename := D\<rparr>)"
    unfolding on_buffer_def dispatch_def sscanf_token [OF assms(1,2)]
    using sys_chdir_filename [OF assms(4), of D] by (simp add: do_cd_def)
  with ol have cd: "on_line ?line w = Running (w'\<lparr>filename := D\<rparr>)" by (simp only:)
  from sys_chdir_result [OF assms(4)] obtain i
    where i: "map_of (fs w) (lexical (start_dir w D) (split_path D)) = Some i"
      and w': "w' = w\<lparr>cwd := lexical (start_dir w D) (split_path D)\<rparr>" by blast
  have "sys_getcwd (w'\<lparr>filename := []\<rparr>) MAX_PATH_LENGTH = Inr (normalized w D)"
    using i assms(5) by (simp add: sys_getcwd_def w' normalized_def)
  then have "do_pwd (w'\<lparr>filename := []\<rparr>)
      = w'\<lparr>filename := [], stdout := stdout w' @ normalized w D @ ''>''\<rparr>"
    by (simp add: do_pwd_def put_out_def)
  then have "on_line (''pwd'' @ endl) (w'\<lparr>filename := D\<rparr>)
      = Running (w'\<lparr>filename := [], stdout := stdout w' @ normalized w D @ ''>''\<rparr>)"
    unfolding on_line_pwd by simp
  with cd show ?thesis by (rule conjI)
qed

theorem cd_then_pwd_witness:
  "''/tmp'' \<noteq> [] \<and> list_all (\<lambda>c. \<not> isspace c \<and> c \<noteq> NUL) ''/tmp''
   \<and> length ''/tmp'' + 4 < MAX_BUFFER_LENGTH
   \<and> sys_chdir demo ''/tmp'' = Inr (demo\<lparr>cwd := [''tmp'']\<rparr>)
   \<and> normalized demo ''/tmp'' = ''/tmp''
   \<and> on_line (''cd /tmp'' @ endl) demo = Running (demo\<lparr>cwd := [''tmp''], filename := ''/tmp''\<rparr>)
   \<and> on_line (''pwd'' @ endl) (demo\<lparr>cwd := [''tmp''], filename := ''/tmp''\<rparr>)
       = Running (demo\<lparr>cwd := [''tmp''], filename := [], stdout := ''/tmp>''\<rparr>)"
proof -
  have a: "''/tmp'' \<noteq> []" by simp
  have b: "list_all (\<lambda>c. \<not> isspace c \<and> c \<noteq> NUL) ''/tmp''" by (simp add: libc_defs)
  have c: "length ''/tmp'' + 4 < MAX_BUFFER_LENGTH" by (simp add: libc_defs)
  have d: "sys_chdir demo ''/tmp'' = Inr (demo\<lparr>cwd := [''tmp'']\<rparr>)" by (simp add: fs_defs demo_defs)
  have n: "normalized demo ''/tmp'' = ''/tmp''" by (simp add: normalized_def fs_defs demo_defs)
  have e: "length (normalized demo ''/tmp'') < MAX_PATH_LENGTH" unfolding n by (simp add: libc_defs)
  have o: "stdout demo = []" by (simp add: demo_def)
  show ?thesis
    using a b c d n cd_then_pwd [OF a b c d e] by (simp add: o)
qed

end
